theory Spec2Isabelle
  imports Main "HOL-Library.Word"
begin

section \<open>Data model of package vm\<close>

text \<open>
  The hypervisor bindings (package \<open>vbox\<close>), the clock and the Go runtime are outside the
  repository.  Everything the monitor reads from them is taken from a script: one answer
  for every call the code makes.  What the monitor does to the outside world (calls of
  handlers, acknowledgements, releases, sleeps) is recorded, in program order, as a list
  of calls.  Logging is left out.
\<close>

text \<open>A Go \<open>error\<close> that is not nil.  The nil error is \<open>None\<close> of \<open>error option\<close>.\<close>

datatype error = Error string

text \<open>Go's \<open>int64\<close>: 64 bits, read as two's complement by \<open>sint\<close>.\<close>

type_synonym int64 = "64 word"

text \<open>
  Modelled from the spec: the constants \<open>vbox.MachineState_*\<close> are declared in the
  bindings.  The code compares a state with \<open>MachineState_PoweredOff\<close> only; the spec
  names powered-off and running.
\<close>

datatype MachineState =
    MachineState_PoweredOff
  | MachineState_Running
  | MachineState_Other nat

text \<open>
  Modelled from the spec: the constants \<open>vbox.EventType_*\<close> of the interest set of
  \<open>passiveListenerLoop\<close>; any other kind is \<open>EventType_Other\<close>.
\<close>

datatype EventType =
    EventType_OnMachineStateChanged
  | EventType_OnStateChanged
  | EventType_MachineEvent
  | EventType_OnSessionStateChanged
  | EventType_OnGuestPropertyChanged
  | EventType_Other nat

text \<open>\<open>vbox.GuestProperty\<close>, with the four fields the code reads.\<close>

record GuestProperty =
  Name :: string
  Value :: string
  Timestamp :: int64
  Flags :: string

text \<open>
  A getter of the bindings returns a Go pair \<open>(string, error)\<close>.  The code keeps the
  string and drops the error (\<open>name, _ := guestPropEvent.GetName()\<close>).
\<close>

type_synonym getter_result = "string \<times> error option"

record GuestPropertyChangedEvent =
  GetName :: getter_result
  GetValue :: getter_result
  GetFlags :: getter_result

text \<open>
  An event as the loop sees it: the answer of \<open>event.GetType()\<close> and the answer of
  \<open>vbox.NewGuestPropertyChangedEvent(event)\<close>.
\<close>

record Event =
  GetType :: "error + EventType"
  NewGuestPropertyChangedEvent :: "error + GuestPropertyChangedEvent"

text \<open>Go's \<open>time.Duration\<close> counts nanoseconds.\<close>

definition Millisecond :: nat where
  "Millisecond = 1000000"

definition Second :: nat where
  "Second = 1000 * Millisecond"

text \<open>
  The calls by which the monitor acts on the outside world, in program order.  \<open>'h\<close> is the type of the registered
  handlers; \<open>OnGuestPropertyChanged h name value timestamp flags\<close> is the call
  \<open>h.OnGuestPropertyChanged(name, value, timestamp, flags)\<close>.
\<close>

datatype 'h call =
    OnGuestPropertyChanged 'h string string int64 string
  | EventProcessed Event
  | EventRelease Event
  | UnregisterListener
  | ListenerRelease
  | EventSourceRelease
  | Sleep nat

text \<open>The struct \<open>VirtualMachine\<close>.  Its handles are opaque; their answers are in the script.\<close>

record 'h VirtualMachine =
  eventHandlers :: "'h list"

definition NewVM :: "'h VirtualMachine" where
  "NewVM = \<lparr>eventHandlers = []\<rparr>"

definition RegisterEventHandler :: "'h VirtualMachine \<Rightarrow> 'h \<Rightarrow> 'h VirtualMachine" where
  "RegisterEventHandler vm handler = vm\<lparr>eventHandlers := eventHandlers vm @ [handler]\<rparr>"

text \<open>
  The script.  Answers inside a loop are indexed by the loop iteration that asks; the
  clock by iteration and by the position of the handler being called.  The two
  \<open>*Initial\<close> fields answer the calls \<open>pollingLoop\<close> makes before its loop.  The two
  \<open>range*\<close> fields give the order in which Go's \<open>range\<close> visits the keys of a map in
  that iteration (the language leaves it unspecified).
\<close>

record script =
  consoleGetEventSource :: "error option"
  eventSourceCreateListener :: "error option"
  eventSourceRegisterListener :: "error option"
  eventSourceGetEvent :: "nat \<Rightarrow> error + Event option"
  eventSourceEventProcessed :: "nat \<Rightarrow> error option"
  timeNow :: "nat \<Rightarrow> nat \<Rightarrow> int64"
  machineGetStateInitial :: "error + MachineState"
  machineGetState :: "nat \<Rightarrow> error + MachineState"
  enumerateGuestPropertiesInitial :: "error + GuestProperty list"
  enumerateGuestProperties :: "nat \<Rightarrow> error + GuestProperty list"
  rangeProperties :: "nat \<Rightarrow> string list"
  rangePreviousProperties :: "nat \<Rightarrow> string list"

text \<open>
  What a monitor loop returns: the Go error (\<open>None\<close> is nil), and as ghost data the
  calls it made and the number of loop iterations completed before the one that
  returned (0 also when the function returns before its loop).
\<close>

record 'h returned =
  result :: "error option"
  calls :: "'h call list"
  iterations :: nat

section \<open>Go's endless \<open>for\<close>\<close>

text \<open>
  \<open>for { body }\<close>: the body either returns from the function (\<open>Inl\<close>) or reaches its
  end with a new loop state (\<open>Inr\<close>).  A loop that never returns is \<open>None\<close>.
\<close>

partial_function (option) forLoop :: "('s \<Rightarrow> 'r + 's) \<Rightarrow> 's \<Rightarrow> 'r option" where
  "forLoop body s = (case body s of Inl r \<Rightarrow> Some r | Inr s' \<Rightarrow> forLoop body s')"

text \<open>The loop state after \<open>n\<close> iterations, when none of them returned.\<close>

fun stateAfter :: "nat \<Rightarrow> ('s \<Rightarrow> 'r + 's) \<Rightarrow> 's \<Rightarrow> 's option" where
  "stateAfter 0 body s = Some s"
| "stateAfter (Suc n) body s = (case body s of Inl r \<Rightarrow> None | Inr s' \<Rightarrow> stateAfter n body s')"

section \<open>The polling loop\<close>

text \<open>The closure \<open>getPropertyMap\<close>, applied to the answer of \<open>EnumerateGuestProperties\<close>.\<close>

definition getPropertyMap ::
  "error + GuestProperty list \<Rightarrow> error + (string \<rightharpoonup> GuestProperty)" where
  "getPropertyMap answer =
     (case answer of
        Inl err \<Rightarrow> Inl err
      | Inr properties \<Rightarrow> Inr (foldl (\<lambda>m prop. m(Name prop \<mapsto> prop)) Map.empty properties))"

text \<open>\<open>for name, prop := range m\<close>, visiting the keys in the given order.\<close>

definition rangeMap :: "('k \<rightharpoonup> 'v) \<Rightarrow> 'k list \<Rightarrow> ('k \<times> 'v) list" where
  "rangeMap m order = List.map_filter (\<lambda>k. map_option (\<lambda>v. (k, v)) (m k)) order"

text \<open>An order in which \<open>range\<close> can visit \<open>m\<close>: every key once.\<close>

definition rangeOrder :: "('k \<rightharpoonup> 'v) \<Rightarrow> 'k list \<Rightarrow> bool" where
  "rangeOrder m order \<longleftrightarrow> distinct order \<and> set order = dom m"

text \<open>\<open>for _, handler := range vm.eventHandlers { handler.OnGuestPropertyChanged(...) }\<close>\<close>

definition notifyHandlers ::
  "'h list \<Rightarrow> string \<Rightarrow> string \<Rightarrow> int64 \<Rightarrow> string \<Rightarrow> 'h call list" where
  "notifyHandlers handlers name value timestamp flags =
     map (\<lambda>handler. OnGuestPropertyChanged handler name value timestamp flags) handlers"

text \<open>The first inner loop of \<open>pollingLoop\<close> (over \<open>properties\<close>).\<close>

definition notifyChanged ::
  "'h list \<Rightarrow> (string \<rightharpoonup> GuestProperty) \<Rightarrow> (string \<times> GuestProperty) list \<Rightarrow> 'h call list" where
  "notifyChanged handlers previousProperties entries =
     concat (map (\<lambda>(name, prop).
       if (case previousProperties name of
             None \<Rightarrow> True
           | Some previousProperty \<Rightarrow> Value previousProperty \<noteq> Value prop)
       then notifyHandlers handlers (Name prop) (Value prop) (Timestamp prop) (Flags prop)
       else []) entries)"

text \<open>The second inner loop of \<open>pollingLoop\<close> (over \<open>previousProperties\<close>).\<close>

definition notifyDeleted ::
  "'h list \<Rightarrow> (string \<rightharpoonup> GuestProperty) \<Rightarrow> (string \<times> GuestProperty) list \<Rightarrow> 'h call list" where
  "notifyDeleted handlers properties entries =
     concat (map (\<lambda>(name, prop).
       if properties name = None
       then notifyHandlers handlers (Name prop) '''' 0 ''''
       else []) entries)"

text \<open>Both inner loops: the diff of one iteration.\<close>

definition diffProperties ::
  "'h list \<Rightarrow> (string \<rightharpoonup> GuestProperty) \<Rightarrow> (string \<rightharpoonup> GuestProperty) \<Rightarrow>
   string list \<Rightarrow> string list \<Rightarrow> 'h call list" where
  "diffProperties handlers previousProperties properties order1 order0 =
     notifyChanged handlers previousProperties (rangeMap properties order1) @
     notifyDeleted handlers properties (rangeMap previousProperties order0)"

text \<open>
  The variables a loop carries from one iteration to the next.  \<open>iteration\<close> and
  \<open>made\<close> (the calls made so far) are ghost variables; \<open>pollingLoop\<close> has two of its own.
\<close>

record 'h loop_state =
  iteration :: nat
  made :: "'h call list"

record 'h polling_state = "'h loop_state" +
  previousState :: MachineState
  previousProperties :: "string \<rightharpoonup> GuestProperty"

text \<open>One iteration of the \<open>for\<close> of \<open>pollingLoop\<close>.\<close>

definition pollingBody ::
  "script \<Rightarrow> 'h VirtualMachine \<Rightarrow> 'h polling_state \<Rightarrow> 'h returned + 'h polling_state" where
  "pollingBody env vm s =
     (let i = iteration s in
      case machineGetState env i of
        Inl e \<Rightarrow> Inl \<lparr>result = None, calls = made s, iterations = i\<rparr>
      | Inr state \<Rightarrow>
          if state = MachineState_PoweredOff \<and> state \<noteq> previousState s
          then Inl \<lparr>result = None, calls = made s, iterations = i\<rparr>
          else
            (case getPropertyMap (enumerateGuestProperties env i) of
               Inl e \<Rightarrow> Inl \<lparr>result = Some e, calls = made s, iterations = i\<rparr>
             | Inr properties \<Rightarrow>
                 Inr \<lparr>iteration = Suc i,
                      made = made s @
                        diffProperties (eventHandlers vm) (previousProperties s) properties
                          (rangeProperties env i) (rangePreviousProperties env i) @
                        [Sleep (250 * Millisecond)],
                      previousState = state,
                      previousProperties = properties\<rparr>))"

definition pollingLoop :: "script \<Rightarrow> 'h VirtualMachine \<Rightarrow> 'h returned option" where
  "pollingLoop env vm =
     (case machineGetStateInitial env of
        Inl e \<Rightarrow> Some \<lparr>result = Some e, calls = [], iterations = 0\<rparr>
      | Inr state0 \<Rightarrow>
          (case getPropertyMap (enumerateGuestPropertiesInitial env) of
             Inl e \<Rightarrow> Some \<lparr>result = Some e, calls = [], iterations = 0\<rparr>
           | Inr properties0 \<Rightarrow>
               forLoop (pollingBody env vm)
                 \<lparr>iteration = 0, made = [], previousState = state0,
                  previousProperties = properties0\<rparr>))"

section \<open>The event-subscription loop\<close>

text \<open>\<open>vm.OnStateChanged(*event)\<close>: the body is empty.\<close>

definition OnStateChanged :: "'h VirtualMachine \<Rightarrow> Event \<Rightarrow> 'h call list" where
  "OnStateChanged vm event = []"

text \<open>
  The \<open>switch eventType\<close> of \<open>passiveListenerLoop\<close> in iteration \<open>i\<close>: the error it
  returns, or the calls it makes.  The getters and the clock are called once for each
  handler, inside the \<open>range\<close> over the handlers.
\<close>

definition dispatchEvent ::
  "script \<Rightarrow> 'h VirtualMachine \<Rightarrow> nat \<Rightarrow> Event \<Rightarrow> EventType \<Rightarrow> error + 'h call list" where
  "dispatchEvent env vm i event eventType =
     (if eventType = EventType_OnStateChanged then Inr (OnStateChanged vm event)
      else if eventType = EventType_OnGuestPropertyChanged then
        (case NewGuestPropertyChangedEvent event of
           Inl e \<Rightarrow> Inl e
         | Inr guestPropEvent \<Rightarrow>
             Inr (map (\<lambda>(k, handler).
                    let name = fst (GetName guestPropEvent);
                        value = fst (GetValue guestPropEvent);
                        flags = fst (GetFlags guestPropEvent)
                    in OnGuestPropertyChanged handler name value (timeNow env i k) flags)
                  (List.enumerate 0 (eventHandlers vm))))
      else Inr [])"

text \<open>
  One iteration of the \<open>for\<close> of \<open>passiveListenerLoop\<close>.  The wait is
  \<open>eventSource.GetEvent(listener, 250)\<close>; when the 250 milliseconds pass without
  an event it answers nil, here \<open>Inr None\<close>.
\<close>

definition passiveBody ::
  "script \<Rightarrow> 'h VirtualMachine \<Rightarrow> 'h loop_state \<Rightarrow> 'h returned + 'h loop_state" where
  "passiveBody env vm s =
     (let i = iteration s in
      case eventSourceGetEvent env i of
        Inl e \<Rightarrow> Inl \<lparr>result = Some e, calls = made s, iterations = i\<rparr>
      | Inr None \<Rightarrow> Inr \<lparr>iteration = Suc i, made = made s\<rparr>
      | Inr (Some event) \<Rightarrow>
          (case GetType event of
             Inl e \<Rightarrow> Inl \<lparr>result = Some e, calls = made s, iterations = i\<rparr>
           | Inr eventType \<Rightarrow>
               (case machineGetState env i of
                  Inl e \<Rightarrow> Inl \<lparr>result = Some e, calls = made s, iterations = i\<rparr>
                | Inr state \<Rightarrow>
                    (case dispatchEvent env vm i event eventType of
                       Inl e \<Rightarrow> Inl \<lparr>result = Some e, calls = made s, iterations = i\<rparr>
                     | Inr dispatched \<Rightarrow>
                         if eventType = EventType_OnStateChanged \<and>
                            state = MachineState_PoweredOff
                         then Inl \<lparr>result = None, calls = made s @ dispatched,
                                   iterations = i\<rparr>
                         else
                           (case eventSourceEventProcessed env i of
                              Some e \<Rightarrow>
                                Inl \<lparr>result = Some e,
                                     calls = made s @ dispatched @ [EventProcessed event],
                                     iterations = i\<rparr>
                            | None \<Rightarrow>
                                Inr \<lparr>iteration = Suc i,
                                     made = made s @ dispatched @
                                       [EventProcessed event, EventRelease event]\<rparr>)))))"

text \<open>The deferred calls run when the function returns, last deferred first.\<close>

definition deferred :: "'h call list \<Rightarrow> 'h returned \<Rightarrow> 'h returned" where
  "deferred ds r = r\<lparr>calls := calls r @ ds\<rparr>"

definition passiveListenerLoop :: "script \<Rightarrow> 'h VirtualMachine \<Rightarrow> 'h returned option" where
  "passiveListenerLoop env vm =
     (case consoleGetEventSource env of
        Some e \<Rightarrow> Some \<lparr>result = Some e, calls = [], iterations = 0\<rparr>
      | None \<Rightarrow>
          (case eventSourceCreateListener env of
             Some e \<Rightarrow>
               Some (deferred [EventSourceRelease]
                 \<lparr>result = Some e, calls = [], iterations = 0\<rparr>)
           | None \<Rightarrow>
               (case eventSourceRegisterListener env of
                  Some e \<Rightarrow>
                    Some (deferred [ListenerRelease, EventSourceRelease]
                      \<lparr>result = Some e, calls = [], iterations = 0\<rparr>)
                | None \<Rightarrow>
                    map_option (deferred [UnregisterListener, ListenerRelease, EventSourceRelease])
                      (forLoop (passiveBody env vm) \<lparr>iteration = 0, made = []\<rparr>))))"

section \<open>Run\<close>

text \<open>
  \<open>Run\<close> starts one goroutine and waits for it, so it returns what the selected loop
  returns.  \<open>backend.SupportPassiveListener\<close> is a constant of another package: a
  parameter here.
\<close>

definition Run :: "bool \<Rightarrow> script \<Rightarrow> 'h VirtualMachine \<Rightarrow> 'h returned option" where
  "Run SupportPassiveListener env vm =
     (if SupportPassiveListener then passiveListenerLoop env vm else pollingLoop env vm)"

section \<open>Release\<close>

text \<open>
  Modelled from the spec: \<open>vbox.CleanupMode_Full\<close> is declared in the bindings ("full
  cleanup mode"); the code passes no other mode.
\<close>

datatype CleanupMode = CleanupMode_Full | CleanupMode_Other nat

text \<open>A \<open>vbox.Medium\<close> is an opaque handle.\<close>

type_synonym Medium = nat

datatype teardown_call =
    SessionUnlockMachine
  | TimeSleep nat
  | ControllerRelease
  | MachineUnregister CleanupMode
  | MachineDeleteConfig "Medium list"
  | ProgressWaitForCompletion int
  | ProgressRelease
  | MachineRelease

record teardown_script =
  sessionUnlockMachine :: "error option"
  controllerRelease :: "error option"
  machineUnregister :: "error + Medium list"
  machineDeleteConfig :: "error option"
  progressWaitForCompletion :: "error option"
  machineRelease :: "error option"

text \<open>
  \<open>Release\<close>: the error returned and the calls made.  \<open>progress.Release()\<close> is deferred
  once \<open>DeleteConfig\<close> has succeeded, so it runs last on the three paths after it.
\<close>

definition Release :: "teardown_script \<Rightarrow> error option \<times> teardown_call list" where
  "Release env =
     (let t1 = [SessionUnlockMachine] in
      case sessionUnlockMachine env of
        Some e \<Rightarrow> (Some e, t1)
      | None \<Rightarrow>
     (let t2 = t1 @ [TimeSleep Second, ControllerRelease] in
      case controllerRelease env of
        Some e \<Rightarrow> (Some e, t2)
      | None \<Rightarrow>
     (let t3 = t2 @ [MachineUnregister CleanupMode_Full] in
      case machineUnregister env of
        Inl e \<Rightarrow> (Some e, t3)
      | Inr media \<Rightarrow>
     (let t4 = t3 @ [MachineDeleteConfig media] in
      case machineDeleteConfig env of
        Some e \<Rightarrow> (Some e, t4)
      | None \<Rightarrow>
     (let t5 = t4 @ [ProgressWaitForCompletion (- 1)] in
      case progressWaitForCompletion env of
        Some e \<Rightarrow> (Some e, t5 @ [ProgressRelease])
      | None \<Rightarrow>
     (let t6 = t5 @ [MachineRelease] in
      case machineRelease env of
        Some e \<Rightarrow> (Some e, t6 @ [ProgressRelease])
      | None \<Rightarrow> (None, t6 @ [ProgressRelease])))))))"

section \<open>Vocabulary of the properties\<close>

text \<open>The property name a call notifies, when the call is a notification.\<close>

definition notifiedName :: "'h call \<Rightarrow> string option" where
  "notifiedName c =
     (case c of
        OnGuestPropertyChanged handler name value timestamp flags \<Rightarrow> Some name
      | _ \<Rightarrow> None)"

text \<open>\<open>about k c\<close>: the call \<open>c\<close> is a notification for the key \<open>k\<close>.\<close>

definition about :: "string \<Rightarrow> 'h call \<Rightarrow> bool" where
  "about k c \<longleftrightarrow> notifiedName c = Some k"


text \<open>Every property of a snapshot is stored under its own name.\<close>

definition keyedByName :: "(string \<rightharpoonup> GuestProperty) \<Rightarrow> bool" where
  "keyedByName m \<longleftrightarrow> (\<forall>k p. m k = Some p \<longrightarrow> Name p = k)"

subsection \<open>Example data\<close>

abbreviation envProd :: GuestProperty where
  "envProd \<equiv> \<lparr>Name = ''env'', Value = ''prod'', Timestamp = 10, Flags = ''''\<rparr>"

abbreviation envStaging :: GuestProperty where
  "envStaging \<equiv> \<lparr>Name = ''env'', Value = ''staging'', Timestamp = 20, Flags = ''''\<rparr>"

abbreviation ver1 :: GuestProperty where
  "ver1 \<equiv> \<lparr>Name = ''ver'', Value = ''1'', Timestamp = 21, Flags = ''RDONLYGUEST''\<rparr>"

abbreviation kv :: GuestProperty where
  "kv \<equiv> \<lparr>Name = ''k'', Value = ''v'', Timestamp = 11, Flags = ''''\<rparr>"

abbreviation sameOld :: GuestProperty where
  "sameOld \<equiv> \<lparr>Name = ''same'', Value = ''s'', Timestamp = 12, Flags = ''''\<rparr>"

abbreviation sameNew :: GuestProperty where
  "sameNew \<equiv> \<lparr>Name = ''same'', Value = ''s'', Timestamp = 22, Flags = ''TRANSIENT''\<rparr>"

abbreviation snapshot0 :: "string \<rightharpoonup> GuestProperty" where
  "snapshot0 \<equiv> [''env'' \<mapsto> envProd, ''k'' \<mapsto> kv, ''same'' \<mapsto> sameOld]"

abbreviation snapshot1 :: "string \<rightharpoonup> GuestProperty" where
  "snapshot1 \<equiv> [''env'' \<mapsto> envStaging, ''ver'' \<mapsto> ver1, ''same'' \<mapsto> sameNew]"

abbreviation vmABC :: "string VirtualMachine" where
  "vmABC \<equiv>
     RegisterEventHandler (RegisterEventHandler (RegisterEventHandler NewVM ''A'') ''B'') ''C''"


text \<open>
  A script in which nothing happens: every call succeeds, no event arrives, the machine is
  running and has no guest property.  The examples change single answers of it.
\<close>

definition quietScript :: script where
  "quietScript =
     \<lparr>consoleGetEventSource = None,
      eventSourceCreateListener = None,
      eventSourceRegisterListener = None,
      eventSourceGetEvent = (\<lambda>i. Inr None),
      eventSourceEventProcessed = (\<lambda>i. None),
      timeNow = (\<lambda>i k. 0),
      machineGetStateInitial = Inr MachineState_Running,
      machineGetState = (\<lambda>i. Inr MachineState_Running),
      enumerateGuestPropertiesInitial = Inr [],
      enumerateGuestProperties = (\<lambda>i. Inr []),
      rangeProperties = (\<lambda>i. []),
      rangePreviousProperties = (\<lambda>i. [])\<rparr>"

abbreviation pollingStart :: "string polling_state" where
  "pollingStart \<equiv>
     \<lparr>iteration = 0, made = [], previousState = MachineState_Running,
      previousProperties = Map.empty\<rparr>"

text \<open>An answer that is the same in every iteration.\<close>

definition always :: "'a \<Rightarrow> nat \<Rightarrow> 'a" where
  "always x i = x"

text \<open>
  The machine is powered off before the polling loop starts and stays so; the third
  enumeration of the guest properties inside the loop fails.
\<close>

definition offFromStartScript :: script where
  "offFromStartScript =
     quietScript
       \<lparr>machineGetStateInitial := Inr MachineState_PoweredOff,
        machineGetState := always (Inr MachineState_PoweredOff),
        enumerateGuestProperties :=
          (\<lambda>i. if i = 2 then Inl (Error ''enumeration failed'') else Inr [])\<rparr>"

abbreviation stateChangedEvent :: Event where
  "stateChangedEvent \<equiv>
     \<lparr>GetType = Inr EventType_OnStateChanged,
      NewGuestPropertyChangedEvent = Inl (Error ''not a guest property event'')\<rparr>"

abbreviation machineStateChangedEvent :: Event where
  "machineStateChangedEvent \<equiv>
     \<lparr>GetType = Inr EventType_OnMachineStateChanged,
      NewGuestPropertyChangedEvent = Inl (Error ''not a guest property event'')\<rparr>"

abbreviation passiveStart :: "string loop_state" where
  "passiveStart \<equiv> \<lparr>iteration = 0, made = []\<rparr>"

text \<open>
  No call of the event-subscription loop fails in iteration \<open>i\<close> (the state query is
  stated apart): the wait times out, or it delivers an event whose kind can be read,
  whose payload can be wrapped when it is a guest-property-changed event, and whose
  acknowledgement succeeds.
\<close>

definition eventCallsSucceed :: "script \<Rightarrow> nat \<Rightarrow> bool" where
  "eventCallsSucceed env i \<longleftrightarrow>
     eventSourceGetEvent env i = Inr None \<or>
     (\<exists>event eventType.
        eventSourceGetEvent env i = Inr (Some event) \<and>
        GetType event = Inr eventType \<and>
        (eventType = EventType_OnGuestPropertyChanged \<longrightarrow>
           (\<exists>g. NewGuestPropertyChangedEvent event = Inr g)) \<and>
        eventSourceEventProcessed env i = None)"

text \<open>
  The machine is running in iteration 0 and powered off from iteration 1 on; every
  iteration delivers a machine-state-changed event, and no call fails.
\<close>

definition offWithoutStateChangedScript :: script where
  "offWithoutStateChangedScript =
     quietScript
       \<lparr>eventSourceGetEvent := always (Inr (Some machineStateChangedEvent)),
        machineGetState :=
          (\<lambda>i. if i < 1 then Inr MachineState_Running else Inr MachineState_PoweredOff)\<rparr>"

text \<open>
  The machine is running in iterations 0 and 1 and powered off in iteration 2; iteration
  0 times out, iterations 1 and 2 deliver a state-changed event; one property appears
  in iteration 1.
\<close>

definition offAtTwoScript :: script where
  "offAtTwoScript =
     quietScript
       \<lparr>eventSourceGetEvent :=
          (\<lambda>i. if i < 1 then Inr None else Inr (Some stateChangedEvent)),
        machineGetState :=
          (\<lambda>i. if i < 2 then Inr MachineState_Running else Inr MachineState_PoweredOff),
        enumerateGuestProperties := (\<lambda>i. if i < 1 then Inr [] else Inr [kv]),
        rangeProperties := (\<lambda>i. if i < 1 then [] else [''k'']),
        rangePreviousProperties := (\<lambda>i. if i < 2 then [] else [''k''])\<rparr>"

text \<open>The wait of iteration 0 times out and the wait of iteration 1 fails.\<close>

definition waitFailsScript :: script where
  "waitFailsScript =
     quietScript
       \<lparr>eventSourceGetEvent :=
          (\<lambda>i. if i < 1 then Inr None else Inl (Error ''wait failed''))\<rparr>"





text \<open>
  The order of the teardown in the words of the specification: unlock the session, wait,
  release the storage controller, unregister the machine in full-cleanup mode, delete
  the backing media (start the deletion and wait for it), release the machine handle.
\<close>

definition teardownOrder :: "Medium list \<Rightarrow> teardown_call list" where
  "teardownOrder media =
     [SessionUnlockMachine, TimeSleep Second, ControllerRelease,
      MachineUnregister CleanupMode_Full, MachineDeleteConfig media,
      ProgressWaitForCompletion (- 1), MachineRelease]"

text \<open>A teardown in which every call succeeds; the machine had two media.\<close>

definition teardownSucceeds :: teardown_script where
  "teardownSucceeds =
     \<lparr>sessionUnlockMachine = None, controllerRelease = None,
      machineUnregister = Inr [7, 8], machineDeleteConfig = None,
      progressWaitForCompletion = None, machineRelease = None\<rparr>"

section \<open>Facts about the endless loop\<close>

lemma forLoop_Inl: "body s = Inl r \<Longrightarrow> forLoop body s = Some r"
  by (subst forLoop.simps) simp

lemma forLoop_Inr: "body s = Inr s' \<Longrightarrow> forLoop body s = forLoop body s'"
  by (subst forLoop.simps) simp

lemma forLoop_stateAfter:
  "stateAfter n body s = Some s' \<Longrightarrow> forLoop body s = forLoop body s'"
proof (induction n arbitrary: s)
  case 0
  then show ?case by simp
next
  case (Suc n)
  then show ?case
    by (cases "body s") (simp_all add: forLoop_Inr)
qed

text \<open>A loop that returns does not start in a state of an invariant no iteration leaves.\<close>

lemma forLoop_Some_not_inv:
  fixes body :: "'s \<Rightarrow> 'r + 's"
  assumes step: "\<And>s. I s \<Longrightarrow> \<exists>s'. body s = Inr s' \<and> I s'"
    and ret: "forLoop body s = Some r"
  shows "\<not> I s"
proof -
  have "b = body \<longrightarrow> \<not> I s" if "forLoop b s = Some r" for b
    using that
  proof (rule forLoop.raw_induct [where P = "\<lambda>b s r. b = body \<longrightarrow> \<not> I s", rotated])
    fix loop :: "('s \<Rightarrow> 'r + 's) \<Rightarrow> 's \<Rightarrow> 'r option" and b s r
    assume IH: "\<And>b s r. loop b s = Some r \<Longrightarrow> b = body \<longrightarrow> \<not> I s"
      and eq: "(case b s of Inl r \<Rightarrow> Some r | Inr s' \<Rightarrow> loop b s') = Some r"
    show "b = body \<longrightarrow> \<not> I s"
    proof (intro impI notI)
      assume b: "b = body" and "I s"
      then obtain s' where s': "body s = Inr s'" "I s'" using step by blast
      with eq b have "loop b s' = Some r" by simp
      from IH [OF this] b s'(2) show False by simp
    qed
  qed
  with ret show ?thesis by simp
qed

lemma forLoop_never:
  assumes "I s" and "\<And>s. I s \<Longrightarrow> \<exists>s'. body s = Inr s' \<and> I s'"
  shows "forLoop body s = None"
  using forLoop_Some_not_inv [of I body s] assms by (cases "forLoop body s") auto

section \<open>The diff of the polling loop\<close>

lemma keyedByName_empty: "keyedByName Map.empty"
  by (simp add: keyedByName_def)

lemma keyedByName_upd: "keyedByName m \<Longrightarrow> keyedByName (m(Name p \<mapsto> p))"
  by (simp add: keyedByName_def)

lemma keyedByName_foldl:
  "keyedByName m \<Longrightarrow> keyedByName (foldl (\<lambda>m prop. m(Name prop \<mapsto> prop)) m properties)"
  by (induction properties arbitrary: m) (simp_all add: keyedByName_upd)

lemma getPropertyMap_keyedByName:
  assumes "getPropertyMap answer = Inr m"
  shows "keyedByName m"
proof (cases answer)
  case (Inl e)
  with assms show ?thesis by (simp add: getPropertyMap_def)
next
  case (Inr properties)
  with assms have "m = foldl (\<lambda>m prop. m(Name prop \<mapsto> prop)) Map.empty properties"
    by (simp add: getPropertyMap_def)
  then show ?thesis by (simp add: keyedByName_foldl keyedByName_empty)
qed

lemma filter_about_notifyHandlers:
  "filter (about k) (notifyHandlers handlers name value timestamp flags) =
     (if name = k then notifyHandlers handlers name value timestamp flags else [])"
  by (induction handlers) (auto simp: notifyHandlers_def about_def notifiedName_def)

lemma filter_about_concat:
  assumes "distinct (map fst entries)"
    and "\<forall>(name, p) \<in> set entries. name \<noteq> k \<longrightarrow> filter (about k) (g (name, p)) = []"
    and "\<forall>(name, p) \<in> set entries. name = k \<longrightarrow> filter (about k) (g (name, p)) = g (name, p)"
  shows "filter (about k) (concat (map g entries)) =
     (case map_of entries k of None \<Rightarrow> [] | Some p \<Rightarrow> g (k, p))"
  using assms
proof (induction entries)
  case Nil
  then show ?case by simp
next
  case (Cons e entries)
  obtain name p where e: "e = (name, p)" by (cases e)
  have IH: "filter (about k) (concat (map g entries)) =
     (case map_of entries k of None \<Rightarrow> [] | Some p \<Rightarrow> g (k, p))"
    using Cons.prems by (intro Cons.IH) simp_all
  show ?case
  proof (cases "name = k")
    case True
    have "map_of entries k = None"
      using Cons.prems(1) by (simp add: map_of_eq_None_iff e True)
    moreover have "filter (about k) (g (k, p)) = g (k, p)"
      using Cons.prems(3) by (simp add: e True)
    ultimately show ?thesis by (simp add: e True IH)
  next
    case False
    have "filter (about k) (g (name, p)) = []"
      using Cons.prems(2) False by (simp add: e)
    then show ?thesis using False by (simp add: e IH)
  qed
qed

lemma distinct_rangeMap: "distinct order \<Longrightarrow> distinct (map fst (rangeMap m order))"
  by (induction order) (auto simp: rangeMap_def map_filter_def image_iff)

lemma set_rangeMap: "set (rangeMap m order) = {(k, v). k \<in> set order \<and> m k = Some v}"
  by (induction order) (auto simp: rangeMap_def map_filter_def)

lemma map_of_rangeMap:
  assumes "rangeOrder m order"
  shows "map_of (rangeMap m order) = m"
proof
  fix k
  have d: "distinct (map fst (rangeMap m order))"
    using assms by (simp add: rangeOrder_def distinct_rangeMap)
  show "map_of (rangeMap m order) k = m k"
  proof (cases "m k")
    case None
    then have "k \<notin> fst ` set (rangeMap m order)"
      by (auto simp: set_rangeMap)
    then show ?thesis using None by (simp add: map_of_eq_None_iff)
  next
    case (Some v)
    then have "(k, v) \<in> set (rangeMap m order)"
      using assms by (auto simp: set_rangeMap rangeOrder_def)
    with d show ?thesis using Some by simp
  qed
qed

lemma filter_about_notifyChanged:
  assumes kb: "keyedByName S1" and ro: "rangeOrder S1 order1"
  shows "filter (about k) (notifyChanged handlers S0 (rangeMap S1 order1)) =
     (case S1 k of
        None \<Rightarrow> []
      | Some p \<Rightarrow>
          if (case S0 k of None \<Rightarrow> True | Some q \<Rightarrow> Value q \<noteq> Value p)
          then notifyHandlers handlers k (Value p) (Timestamp p) (Flags p)
          else [])"
proof -
  have names: "Name p = name" if "(name, p) \<in> set (rangeMap S1 order1)" for name p
    using that kb by (simp add: set_rangeMap keyedByName_def)
  have "filter (about k) (notifyChanged handlers S0 (rangeMap S1 order1)) =
     (case map_of (rangeMap S1 order1) k of
        None \<Rightarrow> []
      | Some p \<Rightarrow>
          (\<lambda>(name, prop).
             if (case S0 name of None \<Rightarrow> True | Some q \<Rightarrow> Value q \<noteq> Value prop)
             then notifyHandlers handlers (Name prop) (Value prop) (Timestamp prop) (Flags prop)
             else []) (k, p))"
    unfolding notifyChanged_def
  proof (rule filter_about_concat)
    show "distinct (map fst (rangeMap S1 order1))"
      using ro by (simp add: rangeOrder_def distinct_rangeMap)
  qed (auto simp: filter_about_notifyHandlers dest: names)
  also have "map_of (rangeMap S1 order1) = S1"
    using ro by (rule map_of_rangeMap)
  finally show ?thesis
    using kb by (auto simp: keyedByName_def split: option.splits)
qed

lemma filter_about_notifyDeleted:
  assumes kb: "keyedByName S0" and ro: "rangeOrder S0 order0"
  shows "filter (about k) (notifyDeleted handlers S1 (rangeMap S0 order0)) =
     (case S0 k of
        None \<Rightarrow> []
      | Some q \<Rightarrow> if S1 k = None then notifyHandlers handlers k '''' 0 '''' else [])"
proof -
  have names: "Name p = name" if "(name, p) \<in> set (rangeMap S0 order0)" for name p
    using that kb by (simp add: set_rangeMap keyedByName_def)
  have "filter (about k) (notifyDeleted handlers S1 (rangeMap S0 order0)) =
     (case map_of (rangeMap S0 order0) k of
        None \<Rightarrow> []
      | Some p \<Rightarrow>
          (\<lambda>(name, prop).
             if S1 name = None then notifyHandlers handlers (Name prop) '''' 0 '''' else []) (k, p))"
    unfolding notifyDeleted_def
  proof (rule filter_about_concat)
    show "distinct (map fst (rangeMap S0 order0))"
      using ro by (simp add: rangeOrder_def distinct_rangeMap)
  qed (auto simp: filter_about_notifyHandlers dest: names)
  also have "map_of (rangeMap S0 order0) = S0"
    using ro by (rule map_of_rangeMap)
  finally show ?thesis
    using kb by (auto simp: keyedByName_def split: option.splits)
qed

lemma filter_about_diffProperties:
  assumes "keyedByName S0" "keyedByName S1" "rangeOrder S1 order1" "rangeOrder S0 order0"
  shows "filter (about k) (diffProperties handlers S0 S1 order1 order0) =
     (case S1 k of
        None \<Rightarrow> (case S0 k of None \<Rightarrow> [] | Some q \<Rightarrow> notifyHandlers handlers k '''' 0 '''')
      | Some p \<Rightarrow>
          if (case S0 k of None \<Rightarrow> True | Some q \<Rightarrow> Value q \<noteq> Value p)
          then notifyHandlers handlers k (Value p) (Timestamp p) (Flags p)
          else [])"
  using assms
  by (simp add: diffProperties_def filter_about_notifyChanged filter_about_notifyDeleted
      split: option.splits)

lemma notifyChanged_same: "notifyChanged handlers S (rangeMap S order) = []"
  by (induction order) (auto simp: notifyChanged_def rangeMap_def map_filter_def)

lemma notifyDeleted_same: "notifyDeleted handlers S (rangeMap S order) = []"
  by (induction order) (auto simp: notifyDeleted_def rangeMap_def map_filter_def)

lemma diffProperties_same: "diffProperties handlers S S order1 order0 = []"
  by (simp add: diffProperties_def notifyChanged_same notifyDeleted_same)

text \<open>
  Claim C1.  Let \<open>S0\<close> (previous) and \<open>S1\<close> (current) be two snapshots built by
  \<open>getPropertyMap\<close>, diffed by one iteration of the polling loop, with \<open>range\<close> visiting
  each map in any order.  For a key \<open>k\<close>: if \<open>S1\<close> holds \<open>k\<close> and \<open>k\<close> is new or its
  value differs from the one in \<open>S0\<close>, the notifications for \<open>k\<close> are exactly one for
  each registered handler, carrying the name, value, timestamp and flags of \<open>S1\<close>; if
  \<open>S0\<close> holds \<open>k\<close> and \<open>S1\<close> does not, they are exactly one for each handler with the
  name, the empty value, timestamp zero and empty flags; if the value is unchanged (or
  \<open>k\<close> is in neither), there is none.  The diff makes no other call, and diffing a
  snapshot against itself makes no call at all.
\<close>

theorem polling_diff_notifications:
  assumes "getPropertyMap (Inr enumerated0) = Inr S0"
    and "getPropertyMap (Inr enumerated1) = Inr S1"
    and "rangeOrder S1 order1"
    and "rangeOrder S0 order0"
  shows
    "(S1 k = Some p \<and> (S0 k = None \<or> (\<exists>q. S0 k = Some q \<and> Value q \<noteq> Value p)) \<longrightarrow>
        filter (about k) (diffProperties handlers S0 S1 order1 order0) =
          map (\<lambda>handler. OnGuestPropertyChanged handler k (Value p) (Timestamp p) (Flags p))
            handlers) \<and>
     (S0 k \<noteq> None \<and> S1 k = None \<longrightarrow>
        filter (about k) (diffProperties handlers S0 S1 order1 order0) =
          map (\<lambda>handler. OnGuestPropertyChanged handler k '''' 0 '''') handlers) \<and>
     ((\<exists>q. S0 k = Some q \<and> S1 k = Some p \<and> Value q = Value p) \<or>
      (S0 k = None \<and> S1 k = None) \<longrightarrow>
        filter (about k) (diffProperties handlers S0 S1 order1 order0) = []) \<and>
     (\<forall>c \<in> set (diffProperties handlers S0 S1 order1 order0). \<exists>name. about name c) \<and>
     diffProperties handlers S1 S1 order1 order1 = []"
proof -
  have kb: "keyedByName S0" "keyedByName S1"
    using assms(1,2) by (auto dest: getPropertyMap_keyedByName)
  note F = filter_about_diffProperties [OF kb assms(3,4), of k handlers]
  have all: "\<exists>name. about name c"
    if "c \<in> set (diffProperties handlers S0 S1 order1 order0)" for c
    using that
    by (auto simp: diffProperties_def notifyChanged_def notifyDeleted_def notifyHandlers_def
        about_def notifiedName_def split: if_splits)
  have changed: "S1 k = Some p \<and> (S0 k = None \<or> (\<exists>q. S0 k = Some q \<and> Value q \<noteq> Value p)) \<longrightarrow>
        filter (about k) (diffProperties handlers S0 S1 order1 order0) =
          map (\<lambda>handler. OnGuestPropertyChanged handler k (Value p) (Timestamp p) (Flags p))
            handlers"
    by (auto simp: F notifyHandlers_def)
  have deleted: "S0 k \<noteq> None \<and> S1 k = None \<longrightarrow>
        filter (about k) (diffProperties handlers S0 S1 order1 order0) =
          map (\<lambda>handler. OnGuestPropertyChanged handler k '''' 0 '''') handlers"
    by (auto simp: F notifyHandlers_def)
  have unchanged: "(\<exists>q. S0 k = Some q \<and> S1 k = Some p \<and> Value q = Value p) \<or>
      (S0 k = None \<and> S1 k = None) \<longrightarrow>
        filter (about k) (diffProperties handlers S0 S1 order1 order0) = []"
    by (auto simp: F)
  show ?thesis
    using changed deleted unchanged all diffProperties_same [of handlers S1 order1 order1]
    by blast
qed

theorem polling_diff_notifications_witness:
  "getPropertyMap (Inr [envProd, kv, sameOld]) = Inr snapshot0 \<and>
   getPropertyMap (Inr [envStaging, ver1, sameNew]) = Inr snapshot1 \<and>
   rangeOrder snapshot1 [''ver'', ''same'', ''env''] \<and>
   rangeOrder snapshot0 [''k'', ''env'', ''same''] \<and>
   snapshot1 ''env'' = Some envStaging \<and> snapshot0 ''env'' = Some envProd \<and>
   snapshot1 ''ver'' = Some ver1 \<and> snapshot0 ''ver'' = None \<and>
   snapshot1 ''k'' = None \<and> snapshot0 ''k'' = Some kv \<and>
   snapshot1 ''same'' = Some sameNew \<and> snapshot0 ''same'' = Some sameOld \<and>
   filter (about ''env'')
     (diffProperties [''A'', ''B''] snapshot0 snapshot1
        [''ver'', ''same'', ''env''] [''k'', ''env'', ''same'']) =
     [OnGuestPropertyChanged ''A'' ''env'' ''staging'' 20 '''',
      OnGuestPropertyChanged ''B'' ''env'' ''staging'' 20 ''''] \<and>
   filter (about ''ver'')
     (diffProperties [''A'', ''B''] snapshot0 snapshot1
        [''ver'', ''same'', ''env''] [''k'', ''env'', ''same'']) =
     [OnGuestPropertyChanged ''A'' ''ver'' ''1'' 21 ''RDONLYGUEST'',
      OnGuestPropertyChanged ''B'' ''ver'' ''1'' 21 ''RDONLYGUEST''] \<and>
   filter (about ''k'')
     (diffProperties [''A'', ''B''] snapshot0 snapshot1
        [''ver'', ''same'', ''env''] [''k'', ''env'', ''same'']) =
     [OnGuestPropertyChanged ''A'' ''k'' '''' 0 '''',
      OnGuestPropertyChanged ''B'' ''k'' '''' 0 ''''] \<and>
   filter (about ''same'')
     (diffProperties [''A'', ''B''] snapshot0 snapshot1
        [''ver'', ''same'', ''env''] [''k'', ''env'', ''same'']) = [] \<and>
   diffProperties [''A'', ''B''] snapshot1 snapshot1
     [''ver'', ''same'', ''env''] [''ver'', ''same'', ''env''] = []"
proof -
  have h0: "getPropertyMap (Inr [envProd, kv, sameOld]) = Inr snapshot0"
    by (simp add: getPropertyMap_def)
  have h1: "getPropertyMap (Inr [envStaging, ver1, sameNew]) = Inr snapshot1"
    by (simp add: getPropertyMap_def)
  have r1: "rangeOrder snapshot1 [''ver'', ''same'', ''env'']"
    by (auto simp: rangeOrder_def)
  have r0: "rangeOrder snapshot0 [''k'', ''env'', ''same'']"
    by (auto simp: rangeOrder_def)
  note T = polling_diff_notifications [OF h0 h1 r1 r0, where handlers = "[''A'', ''B'']"]
  have "filter (about ''env'')
     (diffProperties [''A'', ''B''] snapshot0 snapshot1
        [''ver'', ''same'', ''env''] [''k'', ''env'', ''same'']) =
     [OnGuestPropertyChanged ''A'' ''env'' ''staging'' 20 '''',
      OnGuestPropertyChanged ''B'' ''env'' ''staging'' 20 '''']"
    using T [of "''env''" envStaging] by simp
  moreover have "filter (about ''ver'')
     (diffProperties [''A'', ''B''] snapshot0 snapshot1
        [''ver'', ''same'', ''env''] [''k'', ''env'', ''same'']) =
     [OnGuestPropertyChanged ''A'' ''ver'' ''1'' 21 ''RDONLYGUEST'',
      OnGuestPropertyChanged ''B'' ''ver'' ''1'' 21 ''RDONLYGUEST'']"
    using T [of "''ver''" ver1] by simp
  moreover have "filter (about ''k'')
     (diffProperties [''A'', ''B''] snapshot0 snapshot1
        [''ver'', ''same'', ''env''] [''k'', ''env'', ''same'']) =
     [OnGuestPropertyChanged ''A'' ''k'' '''' 0 '''',
      OnGuestPropertyChanged ''B'' ''k'' '''' 0 '''']"
    using T [of "''k''"] by simp
  moreover have "filter (about ''same'')
     (diffProperties [''A'', ''B''] snapshot0 snapshot1
        [''ver'', ''same'', ''env''] [''k'', ''env'', ''same'']) = []"
    using T [of "''same''" sameNew] by simp
  moreover have "diffProperties [''A'', ''B''] snapshot1 snapshot1
     [''ver'', ''same'', ''env''] [''ver'', ''same'', ''env''] = []"
    using T by blast
  ultimately show ?thesis using h0 h1 r1 r0 by simp
qed
lemma notifyChanged_about:
  assumes "keyedByName S1"
    and "c \<in> set (notifyChanged handlers S0 (rangeMap S1 order1))"
  shows "\<exists>k. notifiedName c = Some k \<and> k \<in> dom S1"
proof -
  from assms(2) obtain name p where
    e: "(name, p) \<in> set (rangeMap S1 order1)" and
    c: "c \<in> set (notifyHandlers handlers (Name p) (Value p) (Timestamp p) (Flags p))"
    by (auto simp: notifyChanged_def split: if_splits)
  from e have "S1 name = Some p" by (simp add: set_rangeMap)
  with assms(1) have "Name p = name" "name \<in> dom S1" by (auto simp: keyedByName_def)
  with c show ?thesis by (auto simp: notifyHandlers_def notifiedName_def)
qed

lemma notifyDeleted_about:
  assumes "keyedByName S0"
    and "c \<in> set (notifyDeleted handlers S1 (rangeMap S0 order0))"
  shows "\<exists>k. notifiedName c = Some k \<and> k \<in> dom S0 \<and> k \<notin> dom S1"
proof -
  from assms(2) obtain name p where
    e: "(name, p) \<in> set (rangeMap S0 order0)" and
    n: "S1 name = None" and
    c: "c \<in> set (notifyHandlers handlers (Name p) '''' 0 '''')"
    by (auto simp: notifyDeleted_def split: if_splits)
  from e have "S0 name = Some p" by (simp add: set_rangeMap)
  with assms(1) n have "Name p = name" "name \<in> dom S0" "name \<notin> dom S1"
    by (auto simp: keyedByName_def)
  with c show ?thesis by (auto simp: notifyHandlers_def notifiedName_def)
qed

text \<open>
  Claim C9.  In the calls of one diff of the polling loop, every notification for a key
  of the current snapshot (a changed or new key) stands before every notification for a
  key absent from it (a deleted key): the notifications of deletions come last.
\<close>

theorem polling_changes_before_deletions:
  assumes "getPropertyMap (Inr enumerated0) = Inr S0"
    and "getPropertyMap (Inr enumerated1) = Inr S1"
    and "i < length (diffProperties handlers S0 S1 order1 order0)"
    and "j < length (diffProperties handlers S0 S1 order1 order0)"
    and "about k (diffProperties handlers S0 S1 order1 order0 ! i)"
    and "k \<in> dom S1"
    and "about k' (diffProperties handlers S0 S1 order1 order0 ! j)"
    and "k' \<notin> dom S1"
  shows "i < j"
proof -
  let ?A = "notifyChanged handlers S0 (rangeMap S1 order1)"
  let ?B = "notifyDeleted handlers S1 (rangeMap S0 order0)"
  have tr: "diffProperties handlers S0 S1 order1 order0 = ?A @ ?B"
    by (simp add: diffProperties_def)
  have kb: "keyedByName S0" "keyedByName S1"
    using assms(1,2) by (auto dest: getPropertyMap_keyedByName)
  have "i < length ?A"
  proof (rule ccontr)
    assume "\<not> i < length ?A"
    with assms(3) have "(?A @ ?B) ! i \<in> set ?B"
      by (simp add: tr nth_append)
    from notifyDeleted_about [OF kb(1) this] assms(5,6) show False
      by (auto simp: tr about_def)
  qed
  moreover have "\<not> j < length ?A"
  proof
    assume "j < length ?A"
    then have "(?A @ ?B) ! j \<in> set ?A"
      by (simp add: nth_append)
    from notifyChanged_about [OF kb(2) this] assms(7,8) show False
      by (auto simp: tr about_def)
  qed
  ultimately show ?thesis by simp
qed

lemma diffProperties_example:
  "diffProperties [''A'', ''B''] snapshot0 snapshot1
     [''ver'', ''same'', ''env''] [''k'', ''env'', ''same''] =
   [OnGuestPropertyChanged ''A'' ''ver'' ''1'' 21 ''RDONLYGUEST'',
    OnGuestPropertyChanged ''B'' ''ver'' ''1'' 21 ''RDONLYGUEST'',
    OnGuestPropertyChanged ''A'' ''env'' ''staging'' 20 '''',
    OnGuestPropertyChanged ''B'' ''env'' ''staging'' 20 '''',
    OnGuestPropertyChanged ''A'' ''k'' '''' 0 '''',
    OnGuestPropertyChanged ''B'' ''k'' '''' 0 '''']"
  by (simp add: diffProperties_def notifyChanged_def notifyDeleted_def notifyHandlers_def
      rangeMap_def map_filter_def)

theorem polling_changes_before_deletions_witness:
  "getPropertyMap (Inr [envProd, kv, sameOld]) = Inr snapshot0 \<and>
   getPropertyMap (Inr [envStaging, ver1, sameNew]) = Inr snapshot1 \<and>
   3 < length (diffProperties [''A'', ''B''] snapshot0 snapshot1
         [''ver'', ''same'', ''env''] [''k'', ''env'', ''same'']) \<and>
   4 < length (diffProperties [''A'', ''B''] snapshot0 snapshot1
         [''ver'', ''same'', ''env''] [''k'', ''env'', ''same'']) \<and>
   about ''env'' (diffProperties [''A'', ''B''] snapshot0 snapshot1
         [''ver'', ''same'', ''env''] [''k'', ''env'', ''same''] ! 3) \<and>
   ''env'' \<in> dom snapshot1 \<and>
   about ''k'' (diffProperties [''A'', ''B''] snapshot0 snapshot1
         [''ver'', ''same'', ''env''] [''k'', ''env'', ''same''] ! 4) \<and>
   ''k'' \<notin> dom snapshot1 \<and>
   (3::nat) < 4"
proof -
  have h0: "getPropertyMap (Inr [envProd, kv, sameOld]) = Inr snapshot0"
    by (simp add: getPropertyMap_def)
  have h1: "getPropertyMap (Inr [envStaging, ver1, sameNew]) = Inr snapshot1"
    by (simp add: getPropertyMap_def)
  have l3: "3 < length (diffProperties [''A'', ''B''] snapshot0 snapshot1
         [''ver'', ''same'', ''env''] [''k'', ''env'', ''same''])"
    by (simp add: diffProperties_example)
  have l4: "4 < length (diffProperties [''A'', ''B''] snapshot0 snapshot1
         [''ver'', ''same'', ''env''] [''k'', ''env'', ''same''])"
    by (simp add: diffProperties_example)
  have a3: "about ''env'' (diffProperties [''A'', ''B''] snapshot0 snapshot1
         [''ver'', ''same'', ''env''] [''k'', ''env'', ''same''] ! 3)"
    by (simp add: diffProperties_example about_def notifiedName_def)
  have d3: "''env'' \<in> dom snapshot1" by simp
  have a4: "about ''k'' (diffProperties [''A'', ''B''] snapshot0 snapshot1
         [''ver'', ''same'', ''env''] [''k'', ''env'', ''same''] ! 4)"
    by (simp add: diffProperties_example about_def notifiedName_def)
  have d4: "''k'' \<notin> dom snapshot1" by simp
  from polling_changes_before_deletions [OF h0 h1 l3 l4 a3 d3 a4 d4]
  show ?thesis using h0 h1 l3 l4 a3 d3 a4 d4 by simp
qed








section \<open>More facts about the endless loop\<close>

lemma forLoop_Some_stateAfter:
  fixes body :: "'s \<Rightarrow> 'r + 's"
  assumes "forLoop body s = Some r"
  shows "\<exists>n s'. stateAfter n body s = Some s' \<and> body s' = Inl r"
proof -
  have "\<exists>n s'. stateAfter n b s = Some s' \<and> b s' = Inl r" if "forLoop b s = Some r" for b
    using that
  proof (rule forLoop.raw_induct
      [where P = "\<lambda>b s r. \<exists>n s'. stateAfter n b s = Some s' \<and> b s' = Inl r", rotated])
    fix loop :: "('s \<Rightarrow> 'r + 's) \<Rightarrow> 's \<Rightarrow> 'r option" and b s r
    assume IH: "\<And>b s r. loop b s = Some r \<Longrightarrow>
        \<exists>n s'. stateAfter n b s = Some s' \<and> b s' = Inl r"
      and eq: "(case b s of Inl r \<Rightarrow> Some r | Inr s' \<Rightarrow> loop b s') = Some r"
    show "\<exists>n s'. stateAfter n b s = Some s' \<and> b s' = Inl r"
    proof (cases "b s")
      case (Inl r')
      with eq have "stateAfter 0 b s = Some s \<and> b s = Inl r" by simp
      then show ?thesis by blast
    next
      case (Inr s1)
      with eq have "loop b s1 = Some r" by simp
      from IH [OF this] obtain n s' where "stateAfter n b s1 = Some s'" "b s' = Inl r"
        by blast
      with Inr have "stateAfter (Suc n) b s = Some s' \<and> b s' = Inl r" by simp
      then show ?thesis by blast
    qed
  qed
  with assms show ?thesis by simp
qed

lemma stateAfter_invariant:
  assumes "\<And>s s'. I s \<Longrightarrow> body s = Inr s' \<Longrightarrow> I s'"
  shows "I s \<Longrightarrow> stateAfter n body s = Some s' \<Longrightarrow> I s'"
proof (induction n arbitrary: s)
  case 0
  then show ?case by simp
next
  case (Suc n)
  from Suc.prems(2) obtain s1 where s1: "body s = Inr s1" "stateAfter n body s1 = Some s'"
    by (cases "body s") simp_all
  from assms [OF Suc.prems(1) s1(1)] have "I s1" .
  from Suc.IH [OF this s1(2)] show ?case .
qed

lemma stateAfter_Suc_end:
  "stateAfter n body s = Some s1 \<Longrightarrow> body s1 = Inr s2 \<Longrightarrow> stateAfter (Suc n) body s = Some s2"
proof (induction n arbitrary: s)
  case 0
  then show ?case by simp
next
  case (Suc n)
  from Suc.prems(1) obtain s' where s': "body s = Inr s'" "stateAfter n body s' = Some s1"
    by (cases "body s") simp_all
  from Suc.IH [OF s'(2) Suc.prems(2)] s'(1) show ?case by simp
qed

lemma forLoop_returns_after:
  "stateAfter n body s = Some s' \<Longrightarrow> body s' = Inl r \<Longrightarrow> forLoop body s = Some r"
  by (simp add: forLoop_stateAfter forLoop_Inl)

section \<open>One iteration of the polling loop\<close>

lemma pollingBody_query_error:
  assumes "machineGetState env (iteration s) = Inl e"
  shows "pollingBody env vm s = Inl \<lparr>result = None, calls = made s, iterations = iteration s\<rparr>"
  using assms by (simp add: pollingBody_def Let_def)

lemma pollingBody_poweredOff:
  assumes "machineGetState env (iteration s) = Inr MachineState_PoweredOff"
    and "previousState s \<noteq> MachineState_PoweredOff"
  shows "pollingBody env vm s = Inl \<lparr>result = None, calls = made s, iterations = iteration s\<rparr>"
  using assms by (auto simp: pollingBody_def Let_def)

lemma pollingBody_enumerate_error:
  assumes "machineGetState env (iteration s) = Inr state"
    and "state \<noteq> MachineState_PoweredOff \<or> previousState s = MachineState_PoweredOff"
    and "enumerateGuestProperties env (iteration s) = Inl e"
  shows "pollingBody env vm s =
     Inl \<lparr>result = Some e, calls = made s, iterations = iteration s\<rparr>"
  using assms by (auto simp: pollingBody_def Let_def getPropertyMap_def)

lemma pollingBody_continues:
  assumes "machineGetState env (iteration s) = Inr state"
    and "state \<noteq> MachineState_PoweredOff \<or> previousState s = MachineState_PoweredOff"
    and "getPropertyMap (enumerateGuestProperties env (iteration s)) = Inr properties"
  shows "pollingBody env vm s =
     Inr \<lparr>iteration = Suc (iteration s),
          made = made s @
            diffProperties (eventHandlers vm) (previousProperties s) properties
              (rangeProperties env (iteration s)) (rangePreviousProperties env (iteration s)) @
            [Sleep (250 * Millisecond)],
          previousState = state,
          previousProperties = properties\<rparr>"
  using assms by (auto simp: pollingBody_def Let_def)

lemma pollingBody_Inl_cases:
  assumes "pollingBody env vm s = Inl r"
  shows "iterations r = iteration s \<and> calls r = made s \<and>
     (result r = None \<longleftrightarrow>
        (\<exists>e. machineGetState env (iteration s) = Inl e) \<or>
        (machineGetState env (iteration s) = Inr MachineState_PoweredOff \<and>
         previousState s \<noteq> MachineState_PoweredOff))"
proof (cases "machineGetState env (iteration s)")
  case (Inl e)
  with assms show ?thesis by (auto simp: pollingBody_def Let_def)
next
  case (Inr state)
  show ?thesis
  proof (cases "state = MachineState_PoweredOff \<and> state \<noteq> previousState s")
    case True
    with assms Inr show ?thesis by (auto simp: pollingBody_def Let_def)
  next
    case False
    with assms Inr show ?thesis
      by (cases "getPropertyMap (enumerateGuestProperties env (iteration s))")
        (auto simp: pollingBody_def Let_def)
  qed
qed

lemma pollingBody_Inr_cases:
  assumes "pollingBody env vm s = Inr s'"
  shows "iteration s' = Suc (iteration s) \<and>
     machineGetState env (iteration s) = Inr (previousState s') \<and>
     getPropertyMap (enumerateGuestProperties env (iteration s)) = Inr (previousProperties s') \<and>
     (previousState s' \<noteq> MachineState_PoweredOff \<or> previousState s = MachineState_PoweredOff)"
proof (cases "machineGetState env (iteration s)")
  case (Inl e)
  with assms show ?thesis by (simp add: pollingBody_def Let_def)
next
  case (Inr state)
  show ?thesis
  proof (cases "state = MachineState_PoweredOff \<and> state \<noteq> previousState s")
    case True
    with assms Inr show ?thesis by (auto simp: pollingBody_def Let_def)
  next
    case False
    with assms Inr show ?thesis
      by (cases "getPropertyMap (enumerateGuestProperties env (iteration s))")
        (auto simp: pollingBody_def Let_def)
  qed
qed

text \<open>
  Claim C4.  An iteration of the polling loop returns nil exactly when the state query
  fails, or the queried state is powered-off and differs from the state recorded before
  (which is the state queried by the iteration before).  A failed state query and a
  power-off return the same thing, nil; and a return of an iteration is the return of
  the loop.
\<close>

theorem polling_iteration_nil_iff:
  "((\<exists>r. pollingBody env vm s = Inl r \<and> result r = None) \<longleftrightarrow>
      (\<exists>e. machineGetState env (iteration s) = Inl e) \<or>
      (machineGetState env (iteration s) = Inr MachineState_PoweredOff \<and>
       previousState s \<noteq> MachineState_PoweredOff)) \<and>
   (machineGetState env (iteration s) = Inl e \<longrightarrow>
      pollingBody env vm s =
        Inl \<lparr>result = None, calls = made s, iterations = iteration s\<rparr>) \<and>
   (machineGetState env (iteration s) = Inr MachineState_PoweredOff \<and>
    previousState s \<noteq> MachineState_PoweredOff \<longrightarrow>
      pollingBody env vm s =
        Inl \<lparr>result = None, calls = made s, iterations = iteration s\<rparr>) \<and>
   (pollingBody env vm s = Inr s' \<longrightarrow>
      machineGetState env (iteration s) = Inr (previousState s')) \<and>
   (stateAfter n (pollingBody env vm) s0 = Some s \<and> pollingBody env vm s = Inl r \<longrightarrow>
      forLoop (pollingBody env vm) s0 = Some r)"
proof -
  have 1: "(\<exists>r. pollingBody env vm s = Inl r \<and> result r = None) \<longleftrightarrow>
      (\<exists>e. machineGetState env (iteration s) = Inl e) \<or>
      (machineGetState env (iteration s) = Inr MachineState_PoweredOff \<and>
       previousState s \<noteq> MachineState_PoweredOff)"
  proof
    assume "\<exists>r. pollingBody env vm s = Inl r \<and> result r = None"
    then obtain r where r: "pollingBody env vm s = Inl r" "result r = None" by blast
    from pollingBody_Inl_cases [OF r(1)] r(2)
    show "(\<exists>e. machineGetState env (iteration s) = Inl e) \<or>
      (machineGetState env (iteration s) = Inr MachineState_PoweredOff \<and>
       previousState s \<noteq> MachineState_PoweredOff)"
      by simp
  next
    assume "(\<exists>e. machineGetState env (iteration s) = Inl e) \<or>
      (machineGetState env (iteration s) = Inr MachineState_PoweredOff \<and>
       previousState s \<noteq> MachineState_PoweredOff)"
    then have "pollingBody env vm s =
        Inl \<lparr>result = None, calls = made s, iterations = iteration s\<rparr>"
      using pollingBody_query_error [of env s _ vm] pollingBody_poweredOff [of env s vm]
      by blast
    then show "\<exists>r. pollingBody env vm s = Inl r \<and> result r = None" by simp
  qed
  have 2: "machineGetState env (iteration s) = Inl e \<longrightarrow>
      pollingBody env vm s =
        Inl \<lparr>result = None, calls = made s, iterations = iteration s\<rparr>"
    by (simp add: pollingBody_query_error)
  have 3: "machineGetState env (iteration s) = Inr MachineState_PoweredOff \<and>
    previousState s \<noteq> MachineState_PoweredOff \<longrightarrow>
      pollingBody env vm s =
        Inl \<lparr>result = None, calls = made s, iterations = iteration s\<rparr>"
    using pollingBody_poweredOff [of env s vm] by blast
  have 4: "pollingBody env vm s = Inr s' \<longrightarrow>
      machineGetState env (iteration s) = Inr (previousState s')"
    using pollingBody_Inr_cases [of env vm s s'] by blast
  have 5: "stateAfter n (pollingBody env vm) s0 = Some s \<and> pollingBody env vm s = Inl r \<longrightarrow>
      forLoop (pollingBody env vm) s0 = Some r"
    using forLoop_returns_after [of n "pollingBody env vm" s0 s r] by blast
  show ?thesis
    by (rule conjI [OF 1 conjI [OF 2 conjI [OF 3 conjI [OF 4 5]]]])
qed

theorem polling_iteration_nil_iff_witness:
  "machineGetState (quietScript\<lparr>machineGetState := \<lambda>i. Inl (Error ''gone'')\<rparr>)
     (iteration pollingStart) = Inl (Error ''gone'') \<and>
   pollingBody (quietScript\<lparr>machineGetState := \<lambda>i. Inl (Error ''gone'')\<rparr>) vmABC pollingStart =
     Inl \<lparr>result = None, calls = [], iterations = 0\<rparr> \<and>
   machineGetState (quietScript\<lparr>machineGetState := \<lambda>i. Inr MachineState_PoweredOff\<rparr>)
     (iteration pollingStart) = Inr MachineState_PoweredOff \<and>
   previousState pollingStart \<noteq> MachineState_PoweredOff \<and>
   pollingBody (quietScript\<lparr>machineGetState := \<lambda>i. Inr MachineState_PoweredOff\<rparr>) vmABC
     pollingStart = Inl \<lparr>result = None, calls = [], iterations = 0\<rparr> \<and>
   stateAfter 0 (pollingBody (quietScript\<lparr>machineGetState := \<lambda>i. Inl (Error ''gone'')\<rparr>) vmABC)
     pollingStart = Some pollingStart \<and>
   forLoop (pollingBody (quietScript\<lparr>machineGetState := \<lambda>i. Inl (Error ''gone'')\<rparr>) vmABC)
     pollingStart = Some \<lparr>result = None, calls = [], iterations = 0\<rparr>"
proof -
  let ?gone = "quietScript\<lparr>machineGetState := \<lambda>i. Inl (Error ''gone'')\<rparr>"
  let ?off = "quietScript\<lparr>machineGetState := \<lambda>i. Inr MachineState_PoweredOff\<rparr>"
  let ?nil = "\<lparr>result = None, calls = [], iterations = 0\<rparr> :: string returned"
  have g: "machineGetState ?gone (iteration pollingStart) = Inl (Error ''gone'')"
    by simp
  have off: "machineGetState ?off (iteration pollingStart) = Inr MachineState_PoweredOff"
    "previousState pollingStart \<noteq> MachineState_PoweredOff"
    by simp_all
  have b1: "pollingBody ?gone vmABC pollingStart = Inl ?nil"
    using polling_iteration_nil_iff
      [of ?gone vmABC pollingStart "Error ''gone''"] g
    by simp
  have b2: "pollingBody ?off vmABC pollingStart = Inl ?nil"
    using polling_iteration_nil_iff [of ?off vmABC pollingStart] off
    by simp
  have st: "stateAfter 0 (pollingBody ?gone vmABC) pollingStart = Some pollingStart"
    by simp
  have l: "forLoop (pollingBody ?gone vmABC) pollingStart = Some ?nil"
    using polling_iteration_nil_iff
      [of ?gone vmABC pollingStart _ _ 0 pollingStart ?nil] st b1
    by blast
  from g off b1 b2 st l show ?thesis by blast
qed

section \<open>The polling loop as a whole\<close>

lemma pollingLoop_enters:
  assumes "machineGetStateInitial env = Inr state0"
    and "getPropertyMap (enumerateGuestPropertiesInitial env) = Inr properties0"
  shows "pollingLoop env vm =
     forLoop (pollingBody env vm)
       \<lparr>iteration = 0, made = [], previousState = state0,
        previousProperties = properties0\<rparr>"
  using assms by (simp add: pollingLoop_def)

lemma getPropertyMap_Inr: "\<exists>m. getPropertyMap (Inr properties) = Inr m"
  by (simp add: getPropertyMap_def)

lemma getPropertyMap_Inl: "getPropertyMap (Inl e) = Inl e"
  by (simp add: getPropertyMap_def)

lemma pollingBody_Inl_error:
  assumes "pollingBody env vm s = Inl r" and "result r = Some e"
  shows "enumerateGuestProperties env (iteration s) = Inl e"
proof (cases "machineGetState env (iteration s)")
  case (Inl e')
  with assms show ?thesis by (auto simp: pollingBody_def Let_def)
next
  case (Inr state)
  show ?thesis
  proof (cases "state = MachineState_PoweredOff \<and> state \<noteq> previousState s")
    case True
    with assms Inr show ?thesis by (auto simp: pollingBody_def Let_def)
  next
    case False
    with assms Inr show ?thesis
      by (cases "enumerateGuestProperties env (iteration s)")
        (auto simp: pollingBody_def Let_def getPropertyMap_def)
  qed
qed

lemma stateAfter_pollingBody_iteration:
  "stateAfter n (pollingBody env vm) s = Some s' \<Longrightarrow> iteration s' = iteration s + n"
proof (induction n arbitrary: s)
  case 0
  then show ?case by simp
next
  case (Suc n)
  from Suc.prems obtain s1 where s1: "pollingBody env vm s = Inr s1"
    "stateAfter n (pollingBody env vm) s1 = Some s'"
    by (cases "pollingBody env vm s") simp_all
  from pollingBody_Inr_cases [OF s1(1)] Suc.IH [OF s1(2)] show ?case by simp
qed

lemma off_stays_off:
  assumes all: "\<forall>i. machineGetState env i = Inr MachineState_PoweredOff"
    and s: "previousState s = MachineState_PoweredOff"
    and b: "pollingBody env vm s = Inr s'"
  shows "previousState s' = MachineState_PoweredOff"
proof -
  from pollingBody_Inr_cases [OF b]
  have "machineGetState env (iteration s) = Inr (previousState s')" by simp
  with all show ?thesis by simp
qed

text \<open>
  Claim C10, amended.  Let the machine be powered off when the polling loop starts, and
  let every state query succeed and report powered-off.  If no enumeration of the guest
  properties fails, the loop never returns.  In any case the loop never returns nil: if
  it returns, it returns the error of an enumeration that failed.
\<close>

theorem polling_off_from_start:
  assumes init: "machineGetStateInitial env = Inr MachineState_PoweredOff"
    and all: "\<forall>i. machineGetState env i = Inr MachineState_PoweredOff"
  shows
    "((\<exists>ps. enumerateGuestPropertiesInitial env = Inr ps) \<and>
      (\<forall>i. \<exists>ps. enumerateGuestProperties env i = Inr ps) \<longrightarrow>
        pollingLoop env vm = None) \<and>
     (\<forall>r. pollingLoop env vm = Some r \<longrightarrow>
        (\<exists>e. result r = Some e \<and>
           (enumerateGuestPropertiesInitial env = Inl e \<or>
            enumerateGuestProperties env (iterations r) = Inl e)))"
proof (intro conjI impI allI)
  assume ok: "(\<exists>ps. enumerateGuestPropertiesInitial env = Inr ps) \<and>
      (\<forall>i. \<exists>ps. enumerateGuestProperties env i = Inr ps)"
  then obtain ps0 where "enumerateGuestPropertiesInitial env = Inr ps0" by blast
  then obtain properties0 where
    p0: "getPropertyMap (enumerateGuestPropertiesInitial env) = Inr properties0"
    using getPropertyMap_Inr [of ps0] by auto
  let ?I = "\<lambda>s :: 'a polling_state. previousState s = MachineState_PoweredOff"
  have step: "\<exists>s'. pollingBody env vm s = Inr s' \<and> ?I s'" if "?I s" for s
  proof -
    from ok obtain ps where "enumerateGuestProperties env (iteration s) = Inr ps" by blast
    then obtain properties where
      "getPropertyMap (enumerateGuestProperties env (iteration s)) = Inr properties"
      using getPropertyMap_Inr [of ps] by auto
    from pollingBody_continues [OF _ _ this, of MachineState_PoweredOff vm] all that
    show ?thesis by simp
  qed
  have "forLoop (pollingBody env vm)
       \<lparr>iteration = 0, made = [], previousState = MachineState_PoweredOff,
        previousProperties = properties0\<rparr> = None"
    by (rule forLoop_never [where I = ?I]) (simp, rule step)
  then show "pollingLoop env vm = None"
    by (simp add: pollingLoop_enters [OF init p0])
next
  fix r
  assume ret: "pollingLoop env vm = Some r"
  show "\<exists>e. result r = Some e \<and>
           (enumerateGuestPropertiesInitial env = Inl e \<or>
            enumerateGuestProperties env (iterations r) = Inl e)"
  proof (cases "enumerateGuestPropertiesInitial env")
    case (Inl e)
    with ret init show ?thesis
      by (auto simp: pollingLoop_def getPropertyMap_Inl)
  next
    case (Inr ps0)
    then obtain properties0 where
      p0: "getPropertyMap (enumerateGuestPropertiesInitial env) = Inr properties0"
      using getPropertyMap_Inr [of ps0] by auto
    let ?s0 = "\<lparr>iteration = 0, made = [], previousState = MachineState_PoweredOff,
        previousProperties = properties0\<rparr> :: 'a polling_state"
    from ret have "forLoop (pollingBody env vm) ?s0 = Some r"
      by (simp add: pollingLoop_enters [OF init p0])
    from forLoop_Some_stateAfter [OF this] obtain n s' where
      n: "stateAfter n (pollingBody env vm) ?s0 = Some s'" and
      b: "pollingBody env vm s' = Inl r"
      by blast
    have off: "previousState s' = MachineState_PoweredOff"
      by (rule stateAfter_invariant
          [where I = "\<lambda>s. previousState s = MachineState_PoweredOff", OF _ _ n])
        (rule off_stays_off [OF all], simp_all)
    from pollingBody_Inl_cases [OF b] all off
    have r: "iterations r = iteration s'" "result r \<noteq> None" by simp_all
    then obtain e where e: "result r = Some e" by auto
    from pollingBody_Inl_error [OF b e] r(1) e show ?thesis by simp
  qed
qed

lemma pollingLoop_offFromStartScript:
  "pollingLoop offFromStartScript vmABC =
     Some \<lparr>result = Some (Error ''enumeration failed''),
           calls = [Sleep (250 * Millisecond), Sleep (250 * Millisecond)],
           iterations = 2\<rparr>"
proof -
  let ?b = "pollingBody offFromStartScript vmABC"
  let ?s0 = "\<lparr>iteration = 0, made = [], previousState = MachineState_PoweredOff,
     previousProperties = Map.empty\<rparr> :: string polling_state"
  let ?s1 = "\<lparr>iteration = 1, made = [Sleep (250 * Millisecond)],
     previousState = MachineState_PoweredOff,
     previousProperties = Map.empty\<rparr> :: string polling_state"
  let ?s2 = "\<lparr>iteration = 2, made = [Sleep (250 * Millisecond), Sleep (250 * Millisecond)],
     previousState = MachineState_PoweredOff,
     previousProperties = Map.empty\<rparr> :: string polling_state"
  have enter: "pollingLoop offFromStartScript vmABC = forLoop ?b ?s0"
    by (simp add: pollingLoop_def offFromStartScript_def quietScript_def getPropertyMap_def)
  have b0: "?b ?s0 = Inr ?s1"
    by (simp add: pollingBody_def Let_def offFromStartScript_def quietScript_def always_def
        getPropertyMap_def diffProperties_def notifyChanged_def notifyDeleted_def
        rangeMap_def map_filter_def)
  have b1: "?b ?s1 = Inr ?s2"
    by (simp add: pollingBody_def Let_def offFromStartScript_def quietScript_def always_def
        getPropertyMap_def diffProperties_def notifyChanged_def notifyDeleted_def
        rangeMap_def map_filter_def)
  have b2: "?b ?s2 =
     Inl \<lparr>result = Some (Error ''enumeration failed''),
           calls = [Sleep (250 * Millisecond), Sleep (250 * Millisecond)],
           iterations = 2\<rparr>"
    by (simp add: pollingBody_def Let_def offFromStartScript_def quietScript_def always_def
        getPropertyMap_def)
  have "forLoop ?b ?s0 = forLoop ?b ?s1" using b0 by (rule forLoop_Inr)
  also have "\<dots> = forLoop ?b ?s2" using b1 by (rule forLoop_Inr)
  also have "\<dots> = Some \<lparr>result = Some (Error ''enumeration failed''),
           calls = [Sleep (250 * Millisecond), Sleep (250 * Millisecond)],
           iterations = 2\<rparr>"
    using b2 by (rule forLoop_Inl)
  finally show ?thesis by (simp only: enter)
qed

theorem polling_off_from_start_counterexample:
  "machineGetStateInitial offFromStartScript = Inr MachineState_PoweredOff \<and>
   machineGetState offFromStartScript = always (Inr MachineState_PoweredOff) \<and>
   pollingLoop offFromStartScript vmABC =
     Some \<lparr>result = Some (Error ''enumeration failed''),
           calls = [Sleep (250 * Millisecond), Sleep (250 * Millisecond)],
           iterations = 2\<rparr>"
  by (simp add: pollingLoop_offFromStartScript) (simp add: offFromStartScript_def)

theorem polling_off_from_start_witness:
  "machineGetStateInitial
     (quietScript\<lparr>machineGetStateInitial := Inr MachineState_PoweredOff,
                  machineGetState := always (Inr MachineState_PoweredOff)\<rparr>) =
     Inr MachineState_PoweredOff \<and>
   (\<forall>i. machineGetState
          (quietScript\<lparr>machineGetStateInitial := Inr MachineState_PoweredOff,
                       machineGetState := always (Inr MachineState_PoweredOff)\<rparr>) i =
        Inr MachineState_PoweredOff) \<and>
   (\<exists>ps. enumerateGuestPropertiesInitial
          (quietScript\<lparr>machineGetStateInitial := Inr MachineState_PoweredOff,
                       machineGetState := always (Inr MachineState_PoweredOff)\<rparr>) = Inr ps) \<and>
   (\<forall>i. \<exists>ps. enumerateGuestProperties
          (quietScript\<lparr>machineGetStateInitial := Inr MachineState_PoweredOff,
                       machineGetState := always (Inr MachineState_PoweredOff)\<rparr>) i = Inr ps) \<and>
   pollingLoop
     (quietScript\<lparr>machineGetStateInitial := Inr MachineState_PoweredOff,
                  machineGetState := always (Inr MachineState_PoweredOff)\<rparr>) vmABC = None \<and>
   machineGetStateInitial offFromStartScript = Inr MachineState_PoweredOff \<and>
   (\<forall>i. machineGetState offFromStartScript i = Inr MachineState_PoweredOff) \<and>
   (\<exists>r. pollingLoop offFromStartScript vmABC = Some r \<and>
        result r = Some (Error ''enumeration failed'') \<and>
        enumerateGuestProperties offFromStartScript (iterations r) =
          Inl (Error ''enumeration failed''))"
proof -
  let ?off = "quietScript\<lparr>machineGetStateInitial := Inr MachineState_PoweredOff,
                  machineGetState := always (Inr MachineState_PoweredOff)\<rparr>"
  have i1: "machineGetStateInitial ?off = Inr MachineState_PoweredOff" by simp
  have a1: "\<forall>i. machineGetState ?off i = Inr MachineState_PoweredOff"
    by (simp add: always_def)
  have e1: "\<exists>ps. enumerateGuestPropertiesInitial ?off = Inr ps"
    "\<forall>i. \<exists>ps. enumerateGuestProperties ?off i = Inr ps"
    by (simp_all add: quietScript_def)
  have n: "pollingLoop ?off vmABC = None"
    using polling_off_from_start [OF i1 a1, of vmABC] e1 by blast
  have i2: "machineGetStateInitial offFromStartScript = Inr MachineState_PoweredOff"
    by (simp add: offFromStartScript_def)
  have a2: "\<forall>i. machineGetState offFromStartScript i = Inr MachineState_PoweredOff"
    by (simp add: offFromStartScript_def always_def)
  let ?r = "\<lparr>result = Some (Error ''enumeration failed''),
           calls = [Sleep (250 * Millisecond), Sleep (250 * Millisecond)],
           iterations = 2\<rparr> :: string returned"
  have ret: "pollingLoop offFromStartScript vmABC = Some ?r"
    by (rule pollingLoop_offFromStartScript)
  have ini: "enumerateGuestPropertiesInitial offFromStartScript = Inr []"
    by (simp add: offFromStartScript_def quietScript_def)
  from polling_off_from_start [OF i2 a2, of vmABC] ret
  have "\<exists>e. result ?r = Some e \<and>
           (enumerateGuestPropertiesInitial offFromStartScript = Inl e \<or>
            enumerateGuestProperties offFromStartScript (iterations ?r) = Inl e)"
    by blast
  then have "enumerateGuestProperties offFromStartScript (iterations ?r) =
      Inl (Error ''enumeration failed'')"
    by (simp add: ini)
  with ret have r: "\<exists>r. pollingLoop offFromStartScript vmABC = Some r \<and>
        result r = Some (Error ''enumeration failed'') \<and>
        enumerateGuestProperties offFromStartScript (iterations r) =
          Inl (Error ''enumeration failed'')"
    by (intro exI [of _ ?r]) simp
  from i1 a1 e1 n i2 a2 r show ?thesis by blast
qed

section \<open>One iteration of the event-subscription loop\<close>

lemma dispatchEvent_stateChanged:
  "dispatchEvent env vm i event EventType_OnStateChanged = Inr []"
  by (simp add: dispatchEvent_def OnStateChanged_def)

lemma dispatchEvent_other:
  assumes "eventType \<noteq> EventType_OnStateChanged"
    and "eventType \<noteq> EventType_OnGuestPropertyChanged"
  shows "dispatchEvent env vm i event eventType = Inr []"
  using assms by (simp add: dispatchEvent_def)

lemma dispatchEvent_Inl:
  assumes "dispatchEvent env vm i event eventType = Inl e"
  shows "eventType = EventType_OnGuestPropertyChanged \<and>
     NewGuestPropertyChangedEvent event = Inl e"
  using assms by (auto simp: dispatchEvent_def split: if_splits sum.splits)

lemma passiveBody_getEvent_error:
  assumes "eventSourceGetEvent env (iteration s) = Inl e"
  shows "passiveBody env vm s =
     Inl \<lparr>result = Some e, calls = made s, iterations = iteration s\<rparr>"
  using assms by (simp add: passiveBody_def Let_def)

lemma passiveBody_timeout:
  assumes "eventSourceGetEvent env (iteration s) = Inr None"
  shows "passiveBody env vm s = Inr \<lparr>iteration = Suc (iteration s), made = made s\<rparr>"
  using assms by (simp add: passiveBody_def Let_def)

lemma passiveBody_getType_error:
  assumes "eventSourceGetEvent env (iteration s) = Inr (Some event)"
    and "GetType event = Inl e"
  shows "passiveBody env vm s =
     Inl \<lparr>result = Some e, calls = made s, iterations = iteration s\<rparr>"
  using assms by (simp add: passiveBody_def Let_def)

lemma passiveBody_getState_error:
  assumes "eventSourceGetEvent env (iteration s) = Inr (Some event)"
    and "GetType event = Inr eventType"
    and "machineGetState env (iteration s) = Inl e"
  shows "passiveBody env vm s =
     Inl \<lparr>result = Some e, calls = made s, iterations = iteration s\<rparr>"
  using assms by (simp add: passiveBody_def Let_def)

lemma passiveBody_dispatch_error:
  assumes "eventSourceGetEvent env (iteration s) = Inr (Some event)"
    and "GetType event = Inr eventType"
    and "machineGetState env (iteration s) = Inr state"
    and "dispatchEvent env vm (iteration s) event eventType = Inl e"
  shows "passiveBody env vm s =
     Inl \<lparr>result = Some e, calls = made s, iterations = iteration s\<rparr>"
  using assms by (simp add: passiveBody_def Let_def)

lemma passiveBody_poweredOff:
  assumes "eventSourceGetEvent env (iteration s) = Inr (Some event)"
    and "GetType event = Inr EventType_OnStateChanged"
    and "machineGetState env (iteration s) = Inr MachineState_PoweredOff"
  shows "passiveBody env vm s =
     Inl \<lparr>result = None, calls = made s, iterations = iteration s\<rparr>"
  using assms by (simp add: passiveBody_def Let_def dispatchEvent_stateChanged)

lemma passiveBody_ack_error:
  assumes "eventSourceGetEvent env (iteration s) = Inr (Some event)"
    and "GetType event = Inr eventType"
    and "machineGetState env (iteration s) = Inr state"
    and "dispatchEvent env vm (iteration s) event eventType = Inr dispatched"
    and "eventType \<noteq> EventType_OnStateChanged \<or> state \<noteq> MachineState_PoweredOff"
    and "eventSourceEventProcessed env (iteration s) = Some e"
  shows "passiveBody env vm s =
     Inl \<lparr>result = Some e, calls = made s @ dispatched @ [EventProcessed event],
          iterations = iteration s\<rparr>"
  using assms by (auto simp: passiveBody_def Let_def)

lemma passiveBody_acknowledged:
  assumes "eventSourceGetEvent env (iteration s) = Inr (Some event)"
    and "GetType event = Inr eventType"
    and "machineGetState env (iteration s) = Inr state"
    and "dispatchEvent env vm (iteration s) event eventType = Inr dispatched"
    and "eventType \<noteq> EventType_OnStateChanged \<or> state \<noteq> MachineState_PoweredOff"
    and "eventSourceEventProcessed env (iteration s) = None"
  shows "passiveBody env vm s =
     Inr \<lparr>iteration = Suc (iteration s),
          made = made s @ dispatched @ [EventProcessed event, EventRelease event]\<rparr>"
  using assms by (auto simp: passiveBody_def Let_def)

lemma passiveBody_nil:
  assumes "passiveBody env vm s = Inl r" and "result r = None"
  shows "\<exists>event. eventSourceGetEvent env (iteration s) = Inr (Some event) \<and>
     GetType event = Inr EventType_OnStateChanged \<and>
     machineGetState env (iteration s) = Inr MachineState_PoweredOff"
proof (cases "eventSourceGetEvent env (iteration s)")
  case (Inl e)
  with assms show ?thesis by (auto simp: passiveBody_getEvent_error)
next
  case (Inr ev)
  show ?thesis
  proof (cases ev)
    case None
    with assms Inr show ?thesis by (simp add: passiveBody_timeout)
  next
    case (Some event)
    note ev = Inr [unfolded Some]
    show ?thesis
    proof (cases "GetType event")
      case (Inl e)
      with assms show ?thesis by (auto simp: passiveBody_getType_error [OF ev])
    next
      case ty: (Inr eventType)
      show ?thesis
      proof (cases "machineGetState env (iteration s)")
        case (Inl e)
        with assms show ?thesis by (auto simp: passiveBody_getState_error [OF ev ty])
      next
        case st: (Inr state)
        show ?thesis
        proof (cases "dispatchEvent env vm (iteration s) event eventType")
          case (Inl e)
          with assms show ?thesis
            by (auto simp: passiveBody_dispatch_error [OF ev ty st])
        next
          case di: (Inr dispatched)
          show ?thesis
          proof (cases "eventType = EventType_OnStateChanged \<and>
              state = MachineState_PoweredOff")
            case True
            with ev ty st show ?thesis by simp
          next
            case False
            then have no: "eventType \<noteq> EventType_OnStateChanged \<or>
                state \<noteq> MachineState_PoweredOff"
              by simp
            show ?thesis
            proof (cases "eventSourceEventProcessed env (iteration s)")
              case None
              with assms show ?thesis
                by (simp add: passiveBody_acknowledged [OF ev ty st di no])
            next
              case (Some e)
              with assms show ?thesis
                by (auto simp: passiveBody_ack_error [OF ev ty st di no])
            qed
          qed
        qed
      qed
    qed
  qed
qed

lemma passiveBody_Inl_iterations:
  assumes "passiveBody env vm s = Inl r"
  shows "iterations r = iteration s"
  using assms
  by (auto simp: passiveBody_def Let_def split: sum.splits option.splits if_splits)

lemma passiveBody_Inr_iteration:
  assumes "passiveBody env vm s = Inr s'"
  shows "iteration s' = Suc (iteration s)"
  using assms
  by (auto simp: passiveBody_def Let_def split: sum.splits option.splits if_splits)

text \<open>
  Claim C3.  An iteration of the event-subscription loop returns nil exactly when it
  received an event whose kind is state-changed and the machine state queried in that
  iteration is powered-off.  On that path the iteration makes no call: the event is not
  acknowledged.  In every other iteration that has dispatched an event,
  \<open>EventProcessed\<close> is called; if it succeeds the event is released and the loop goes
  on, and if it fails the loop returns its error.
\<close>

theorem event_loop_exit_iff:
  "((\<exists>r. passiveBody env vm s = Inl r \<and> result r = None) \<longleftrightarrow>
      (\<exists>ev. eventSourceGetEvent env (iteration s) = Inr (Some ev) \<and>
         GetType ev = Inr EventType_OnStateChanged \<and>
         machineGetState env (iteration s) = Inr MachineState_PoweredOff)) \<and>
   (eventSourceGetEvent env (iteration s) = Inr (Some event) \<and>
    GetType event = Inr eventType \<and>
    machineGetState env (iteration s) = Inr state \<and>
    dispatchEvent env vm (iteration s) event eventType = Inr dispatched \<longrightarrow>
      (if eventType = EventType_OnStateChanged \<and> state = MachineState_PoweredOff
       then passiveBody env vm s =
              Inl \<lparr>result = None, calls = made s, iterations = iteration s\<rparr>
       else (case eventSourceEventProcessed env (iteration s) of
               None \<Rightarrow>
                 passiveBody env vm s =
                   Inr \<lparr>iteration = Suc (iteration s),
                        made = made s @ dispatched @
                          [EventProcessed event, EventRelease event]\<rparr>
             | Some e \<Rightarrow>
                 passiveBody env vm s =
                   Inl \<lparr>result = Some e,
                        calls = made s @ dispatched @ [EventProcessed event],
                        iterations = iteration s\<rparr>))) \<and>
   (stateAfter n (passiveBody env vm) s0 = Some s \<and> passiveBody env vm s = Inl r \<longrightarrow>
      forLoop (passiveBody env vm) s0 = Some r)"
proof -
  have 1: "(\<exists>r. passiveBody env vm s = Inl r \<and> result r = None) \<longleftrightarrow>
      (\<exists>ev. eventSourceGetEvent env (iteration s) = Inr (Some ev) \<and>
         GetType ev = Inr EventType_OnStateChanged \<and>
         machineGetState env (iteration s) = Inr MachineState_PoweredOff)"
  proof
    assume "\<exists>r. passiveBody env vm s = Inl r \<and> result r = None"
    then obtain r where "passiveBody env vm s = Inl r" "result r = None" by blast
    then show "\<exists>ev. eventSourceGetEvent env (iteration s) = Inr (Some ev) \<and>
         GetType ev = Inr EventType_OnStateChanged \<and>
         machineGetState env (iteration s) = Inr MachineState_PoweredOff"
      by (rule passiveBody_nil)
  next
    assume "\<exists>ev. eventSourceGetEvent env (iteration s) = Inr (Some ev) \<and>
         GetType ev = Inr EventType_OnStateChanged \<and>
         machineGetState env (iteration s) = Inr MachineState_PoweredOff"
    then obtain ev where "eventSourceGetEvent env (iteration s) = Inr (Some ev)"
      "GetType ev = Inr EventType_OnStateChanged"
      "machineGetState env (iteration s) = Inr MachineState_PoweredOff"
      by blast
    from passiveBody_poweredOff [OF this, of vm]
    show "\<exists>r. passiveBody env vm s = Inl r \<and> result r = None" by simp
  qed
  have 2: "eventSourceGetEvent env (iteration s) = Inr (Some event) \<and>
    GetType event = Inr eventType \<and>
    machineGetState env (iteration s) = Inr state \<and>
    dispatchEvent env vm (iteration s) event eventType = Inr dispatched \<longrightarrow>
      (if eventType = EventType_OnStateChanged \<and> state = MachineState_PoweredOff
       then passiveBody env vm s =
              Inl \<lparr>result = None, calls = made s, iterations = iteration s\<rparr>
       else (case eventSourceEventProcessed env (iteration s) of
               None \<Rightarrow>
                 passiveBody env vm s =
                   Inr \<lparr>iteration = Suc (iteration s),
                        made = made s @ dispatched @
                          [EventProcessed event, EventRelease event]\<rparr>
             | Some e \<Rightarrow>
                 passiveBody env vm s =
                   Inl \<lparr>result = Some e,
                        calls = made s @ dispatched @ [EventProcessed event],
                        iterations = iteration s\<rparr>))"
  proof (intro impI, elim conjE)
    assume ev: "eventSourceGetEvent env (iteration s) = Inr (Some event)"
      and ty: "GetType event = Inr eventType"
      and st: "machineGetState env (iteration s) = Inr state"
      and di: "dispatchEvent env vm (iteration s) event eventType = Inr dispatched"
    show "if eventType = EventType_OnStateChanged \<and> state = MachineState_PoweredOff
       then passiveBody env vm s =
              Inl \<lparr>result = None, calls = made s, iterations = iteration s\<rparr>
       else (case eventSourceEventProcessed env (iteration s) of
               None \<Rightarrow>
                 passiveBody env vm s =
                   Inr \<lparr>iteration = Suc (iteration s),
                        made = made s @ dispatched @
                          [EventProcessed event, EventRelease event]\<rparr>
             | Some e \<Rightarrow>
                 passiveBody env vm s =
                   Inl \<lparr>result = Some e,
                        calls = made s @ dispatched @ [EventProcessed event],
                        iterations = iteration s\<rparr>)"
    proof (cases "eventType = EventType_OnStateChanged \<and> state = MachineState_PoweredOff")
      case True
      with passiveBody_poweredOff [OF ev, of vm] ty st show ?thesis by simp
    next
      case False
      then have no: "eventType \<noteq> EventType_OnStateChanged \<or>
          state \<noteq> MachineState_PoweredOff"
        by simp
      show ?thesis
      proof (cases "eventSourceEventProcessed env (iteration s)")
        case None
        from passiveBody_acknowledged [OF ev ty st di no None] False None
        show ?thesis by simp
      next
        case (Some e)
        from passiveBody_ack_error [OF ev ty st di no Some] False Some
        show ?thesis by simp
      qed
    qed
  qed
  have 3: "stateAfter n (passiveBody env vm) s0 = Some s \<and> passiveBody env vm s = Inl r \<longrightarrow>
      forLoop (passiveBody env vm) s0 = Some r"
    using forLoop_returns_after [of n "passiveBody env vm" s0 s r] by blast
  show ?thesis
    by (rule conjI [OF 1 conjI [OF 2 3]])
qed

theorem event_loop_exit_iff_witness:
  "eventSourceGetEvent
     (quietScript\<lparr>eventSourceGetEvent := always (Inr (Some stateChangedEvent)),
                  machineGetState := always (Inr MachineState_PoweredOff)\<rparr>)
     (iteration passiveStart) = Inr (Some stateChangedEvent) \<and>
   GetType stateChangedEvent = Inr EventType_OnStateChanged \<and>
   machineGetState
     (quietScript\<lparr>eventSourceGetEvent := always (Inr (Some stateChangedEvent)),
                  machineGetState := always (Inr MachineState_PoweredOff)\<rparr>)
     (iteration passiveStart) = Inr MachineState_PoweredOff \<and>
   dispatchEvent
     (quietScript\<lparr>eventSourceGetEvent := always (Inr (Some stateChangedEvent)),
                  machineGetState := always (Inr MachineState_PoweredOff)\<rparr>)
     vmABC (iteration passiveStart) stateChangedEvent EventType_OnStateChanged = Inr [] \<and>
   passiveBody
     (quietScript\<lparr>eventSourceGetEvent := always (Inr (Some stateChangedEvent)),
                  machineGetState := always (Inr MachineState_PoweredOff)\<rparr>)
     vmABC passiveStart = Inl \<lparr>result = None, calls = [], iterations = 0\<rparr> \<and>
   forLoop (passiveBody
     (quietScript\<lparr>eventSourceGetEvent := always (Inr (Some stateChangedEvent)),
                  machineGetState := always (Inr MachineState_PoweredOff)\<rparr>) vmABC)
     passiveStart = Some \<lparr>result = None, calls = [], iterations = 0\<rparr> \<and>
   passiveBody
     (quietScript\<lparr>eventSourceGetEvent := always (Inr (Some stateChangedEvent))\<rparr>)
     vmABC passiveStart =
     Inr \<lparr>iteration = 1,
          made = [EventProcessed stateChangedEvent, EventRelease stateChangedEvent]\<rparr>"
proof -
  let ?off = "quietScript\<lparr>eventSourceGetEvent := always (Inr (Some stateChangedEvent)),
                  machineGetState := always (Inr MachineState_PoweredOff)\<rparr>"
  let ?run = "quietScript\<lparr>eventSourceGetEvent := always (Inr (Some stateChangedEvent))\<rparr>"
  let ?nil = "\<lparr>result = None, calls = [], iterations = 0\<rparr> :: string returned"
  have ev: "eventSourceGetEvent ?off (iteration passiveStart) = Inr (Some stateChangedEvent)"
    by (simp add: always_def)
  have ty: "GetType stateChangedEvent = Inr EventType_OnStateChanged" by simp
  have st: "machineGetState ?off (iteration passiveStart) = Inr MachineState_PoweredOff"
    by (simp add: always_def)
  have di: "dispatchEvent ?off vmABC (iteration passiveStart) stateChangedEvent
      EventType_OnStateChanged = Inr []"
    by (rule dispatchEvent_stateChanged)
  note T = event_loop_exit_iff
    [of ?off vmABC passiveStart stateChangedEvent EventType_OnStateChanged
       MachineState_PoweredOff "[]" 0 passiveStart ?nil]
  have b: "passiveBody ?off vmABC passiveStart = Inl ?nil"
    using T ev ty st di by simp
  have st0: "stateAfter 0 (passiveBody ?off vmABC) passiveStart = Some passiveStart"
    by simp
  have l: "forLoop (passiveBody ?off vmABC) passiveStart = Some ?nil"
    using T st0 b by blast
  have ev': "eventSourceGetEvent ?run (iteration passiveStart) = Inr (Some stateChangedEvent)"
    by (simp add: always_def)
  have st': "machineGetState ?run (iteration passiveStart) = Inr MachineState_Running"
    by (simp add: quietScript_def)
  have di': "dispatchEvent ?run vmABC (iteration passiveStart) stateChangedEvent
      EventType_OnStateChanged = Inr []"
    by (rule dispatchEvent_stateChanged)
  have ack: "eventSourceEventProcessed ?run (iteration passiveStart) = None"
    by (simp add: quietScript_def)
  have c: "passiveBody ?run vmABC passiveStart =
     Inr \<lparr>iteration = 1,
          made = [EventProcessed stateChangedEvent, EventRelease stateChangedEvent]\<rparr>"
    using event_loop_exit_iff
      [of ?run vmABC passiveStart stateChangedEvent EventType_OnStateChanged
         MachineState_Running "[]"] ev' ty st' di' ack
    by simp
  from ev ty st di b l c show ?thesis by blast
qed

section \<open>The loops as a whole\<close>

lemma result_deferred [simp]: "result (deferred ds r) = result r"
  by (simp add: deferred_def)

lemma iterations_deferred [simp]: "iterations (deferred ds r) = iterations r"
  by (simp add: deferred_def)

lemma passiveListenerLoop_enters:
  assumes "consoleGetEventSource env = None"
    and "eventSourceCreateListener env = None"
    and "eventSourceRegisterListener env = None"
  shows "passiveListenerLoop env vm =
     map_option (deferred [UnregisterListener, ListenerRelease, EventSourceRelease])
       (forLoop (passiveBody env vm) \<lparr>iteration = 0, made = []\<rparr>)"
  using assms by (simp add: passiveListenerLoop_def)

lemma stateAfter_passiveBody_iteration:
  "stateAfter n (passiveBody env vm) s = Some s' \<Longrightarrow> iteration s' = iteration s + n"
proof (induction n arbitrary: s)
  case 0
  then show ?case by simp
next
  case (Suc n)
  from Suc.prems obtain s1 where s1: "passiveBody env vm s = Inr s1"
    "stateAfter n (passiveBody env vm) s1 = Some s'"
    by (cases "passiveBody env vm s") simp_all
  from passiveBody_Inr_iteration [OF s1(1)] Suc.IH [OF s1(2)] show ?case by simp
qed

lemma dispatchEvent_succeeds:
  assumes "eventType = EventType_OnGuestPropertyChanged \<longrightarrow>
     (\<exists>g. NewGuestPropertyChangedEvent event = Inr g)"
  shows "\<exists>dispatched. dispatchEvent env vm i event eventType = Inr dispatched"
  using assms by (auto simp: dispatchEvent_def)

lemma passiveBody_passes:
  assumes ok: "eventCallsSucceed env (iteration s)"
    and st: "machineGetState env (iteration s) = Inr state"
    and no: "state \<noteq> MachineState_PoweredOff"
  shows "\<exists>s'. passiveBody env vm s = Inr s'"
proof (cases "eventSourceGetEvent env (iteration s) = Inr None")
  case True
  then show ?thesis by (simp add: passiveBody_timeout)
next
  case False
  with ok obtain event eventType where
    ev: "eventSourceGetEvent env (iteration s) = Inr (Some event)" and
    ty: "GetType event = Inr eventType" and
    gp: "eventType = EventType_OnGuestPropertyChanged \<longrightarrow>
           (\<exists>g. NewGuestPropertyChangedEvent event = Inr g)" and
    ack: "eventSourceEventProcessed env (iteration s) = None"
    by (auto simp: eventCallsSucceed_def)
  from dispatchEvent_succeeds [OF gp] obtain dispatched where
    di: "dispatchEvent env vm (iteration s) event eventType = Inr dispatched"
    by blast
  from no have "eventType \<noteq> EventType_OnStateChanged \<or> state \<noteq> MachineState_PoweredOff"
    by simp
  from passiveBody_acknowledged [OF ev ty st di this ack] show ?thesis by simp
qed

lemma passive_reaches:
  assumes "\<forall>i<n. eventCallsSucceed env i"
    and "\<forall>i<n. \<exists>st. machineGetState env i = Inr st \<and> st \<noteq> MachineState_PoweredOff"
  shows "\<exists>s. stateAfter n (passiveBody env vm) \<lparr>iteration = 0, made = []\<rparr> = Some s"
  using assms
proof (induction n)
  case 0
  then show ?case by simp
next
  case (Suc n)
  then obtain s where s: "stateAfter n (passiveBody env vm) \<lparr>iteration = 0, made = []\<rparr> = Some s"
    by auto
  from stateAfter_passiveBody_iteration [OF s] have i: "iteration s = n" by simp
  from Suc.prems(2) obtain st where
    "machineGetState env n = Inr st" "st \<noteq> MachineState_PoweredOff"
    by auto
  moreover from Suc.prems(1) have "eventCallsSucceed env n" by simp
  ultimately obtain s' where "passiveBody env vm s = Inr s'"
    using passiveBody_passes [of env s st vm] i by auto
  from stateAfter_Suc_end [OF s this] show ?case by blast
qed

lemma polling_reaches:
  assumes "previousState s0 \<noteq> MachineState_PoweredOff" and "iteration s0 = 0"
    and "\<forall>i<n. \<exists>st. machineGetState env i = Inr st \<and> st \<noteq> MachineState_PoweredOff"
    and "\<forall>i<n. \<exists>ps. enumerateGuestProperties env i = Inr ps"
  shows "\<exists>s. stateAfter n (pollingBody env vm) s0 = Some s \<and>
     previousState s \<noteq> MachineState_PoweredOff"
  using assms(3,4)
proof (induction n)
  case 0
  with assms(1) show ?case by simp
next
  case (Suc n)
  then obtain s where s: "stateAfter n (pollingBody env vm) s0 = Some s"
    and p: "previousState s \<noteq> MachineState_PoweredOff"
    by auto
  from stateAfter_pollingBody_iteration [OF s] assms(2) have i: "iteration s = n" by simp
  from Suc.prems(1) obtain st where
    st: "machineGetState env (iteration s) = Inr st" "st \<noteq> MachineState_PoweredOff"
    using i by auto
  from Suc.prems(2) obtain ps where "enumerateGuestProperties env (iteration s) = Inr ps"
    using i by auto
  then obtain properties where
    "getPropertyMap (enumerateGuestProperties env (iteration s)) = Inr properties"
    using getPropertyMap_Inr [of ps] by auto
  from pollingBody_continues [OF st(1) _ this, of vm] st(2)
  obtain s' where s': "pollingBody env vm s = Inr s'" "previousState s' = st"
    by simp
  from stateAfter_Suc_end [OF s s'(1)] s'(2) st(2) show ?case by simp
qed

lemma pollingLoop_nil:
  assumes "pollingLoop env vm = Some r" and "result r = None"
  shows "(\<exists>e. machineGetState env (iterations r) = Inl e) \<or>
     machineGetState env (iterations r) = Inr MachineState_PoweredOff"
proof -
  from assms obtain s0 where "forLoop (pollingBody env vm) s0 = Some r" "iteration s0 = 0"
    by (auto simp: pollingLoop_def split: sum.splits)
  from forLoop_Some_stateAfter [OF this(1)] obtain n s where
    n: "stateAfter n (pollingBody env vm) s0 = Some s" and
    b: "pollingBody env vm s = Inl r"
    by blast
  from pollingBody_Inl_cases [OF b] assms(2) show ?thesis by auto
qed

lemma passiveListenerLoop_nil:
  assumes "passiveListenerLoop env vm = Some r" and "result r = None"
  shows "\<exists>ev. eventSourceGetEvent env (iterations r) = Inr (Some ev) \<and>
     GetType ev = Inr EventType_OnStateChanged \<and>
     machineGetState env (iterations r) = Inr MachineState_PoweredOff"
proof -
  from assms obtain r' where
    r': "forLoop (passiveBody env vm) \<lparr>iteration = 0, made = []\<rparr> = Some r'"
      "result r' = None" "iterations r' = iterations r"
    by (auto simp: passiveListenerLoop_def split: option.splits)
  from forLoop_Some_stateAfter [OF r'(1)] obtain n s where
    n: "stateAfter n (passiveBody env vm) \<lparr>iteration = 0, made = []\<rparr> = Some s" and
    b: "passiveBody env vm s = Inl r'"
    by blast
  from passiveBody_Inl_iterations [OF b] r'(3) have "iteration s = iterations r" by simp
  with passiveBody_nil [OF b r'(2)] show ?thesis by simp
qed

text \<open>
  Claim C2, amended.  Let every state query before iteration \<open>N\<close> succeed with a state
  other than powered-off, and let the query of iteration \<open>N\<close> report powered-off.
  In polling mode, if also the state recorded before the loop is not powered-off and no
  enumeration of the guest properties fails before iteration \<open>N\<close>, the loop returns
  nil in iteration \<open>N\<close>.  In event-subscription mode, if no other call fails before
  iteration \<open>N\<close> and iteration \<open>N\<close> delivers a state-changed event, the loop returns
  nil in iteration \<open>N\<close>; if iteration \<open>N\<close> delivers no state-changed event, the loop
  does not return nil in iteration \<open>N\<close>.  In neither mode does the loop return nil in
  an iteration before \<open>N\<close>.
\<close>

theorem monitor_returns_at_power_off:
  assumes before:
      "\<forall>i<N. \<exists>st. machineGetState env i = Inr st \<and> st \<noteq> MachineState_PoweredOff"
    and at: "machineGetState env N = Inr MachineState_PoweredOff"
  shows
    "(machineGetStateInitial env = Inr state0 \<and> state0 \<noteq> MachineState_PoweredOff \<and>
      (\<exists>ps. enumerateGuestPropertiesInitial env = Inr ps) \<and>
      (\<forall>i<N. \<exists>ps. enumerateGuestProperties env i = Inr ps) \<longrightarrow>
        (\<exists>r. Run False env vm = Some r \<and> result r = None \<and> iterations r = N)) \<and>
     (consoleGetEventSource env = None \<and> eventSourceCreateListener env = None \<and>
      eventSourceRegisterListener env = None \<and> (\<forall>i<N. eventCallsSucceed env i) \<and>
      eventSourceGetEvent env N = Inr (Some event) \<and>
      GetType event = Inr EventType_OnStateChanged \<longrightarrow>
        (\<exists>r. Run True env vm = Some r \<and> result r = None \<and> iterations r = N)) \<and>
     (\<not> (\<exists>ev. eventSourceGetEvent env N = Inr (Some ev) \<and>
            GetType ev = Inr EventType_OnStateChanged) \<longrightarrow>
        (\<forall>r. Run True env vm = Some r \<and> result r = None \<longrightarrow> iterations r \<noteq> N)) \<and>
     (\<forall>mode r. Run mode env vm = Some r \<and> result r = None \<longrightarrow> N \<le> iterations r)"
proof -
  have polling: "machineGetStateInitial env = Inr state0 \<and> state0 \<noteq> MachineState_PoweredOff \<and>
      (\<exists>ps. enumerateGuestPropertiesInitial env = Inr ps) \<and>
      (\<forall>i<N. \<exists>ps. enumerateGuestProperties env i = Inr ps) \<longrightarrow>
        (\<exists>r. Run False env vm = Some r \<and> result r = None \<and> iterations r = N)"
  proof (intro impI, elim conjE exE)
    fix ps0
    assume init: "machineGetStateInitial env = Inr state0"
      and on: "state0 \<noteq> MachineState_PoweredOff"
      and e0: "enumerateGuestPropertiesInitial env = Inr ps0"
      and en: "\<forall>i<N. \<exists>ps. enumerateGuestProperties env i = Inr ps"
    obtain properties0 where
      p0: "getPropertyMap (enumerateGuestPropertiesInitial env) = Inr properties0"
      using getPropertyMap_Inr [of ps0] e0 by auto
    let ?s0 = "\<lparr>iteration = 0, made = [], previousState = state0,
        previousProperties = properties0\<rparr> :: 'a polling_state"
    have "previousState ?s0 \<noteq> MachineState_PoweredOff" "iteration ?s0 = 0"
      using on by simp_all
    from polling_reaches [OF this before en, of vm] obtain s where
      s: "stateAfter N (pollingBody env vm) ?s0 = Some s" and
      p: "previousState s \<noteq> MachineState_PoweredOff"
      by blast
    from stateAfter_pollingBody_iteration [OF s] have i: "iteration s = N" by simp
    from pollingBody_poweredOff [of env s vm] at p i
    have "pollingBody env vm s = Inl \<lparr>result = None, calls = made s, iterations = N\<rparr>"
      by simp
    from forLoop_returns_after [OF s this]
    have "pollingLoop env vm = Some \<lparr>result = None, calls = made s, iterations = N\<rparr>"
      by (simp add: pollingLoop_enters [OF init p0])
    then show "\<exists>r. Run False env vm = Some r \<and> result r = None \<and> iterations r = N"
      by (simp add: Run_def)
  qed
  have evLoop: "consoleGetEventSource env = None \<and> eventSourceCreateListener env = None \<and>
      eventSourceRegisterListener env = None \<and> (\<forall>i<N. eventCallsSucceed env i) \<and>
      eventSourceGetEvent env N = Inr (Some event) \<and>
      GetType event = Inr EventType_OnStateChanged \<longrightarrow>
        (\<exists>r. Run True env vm = Some r \<and> result r = None \<and> iterations r = N)"
  proof (intro impI, elim conjE)
    assume acquired: "consoleGetEventSource env = None" "eventSourceCreateListener env = None"
        "eventSourceRegisterListener env = None"
      and ok: "\<forall>i<N. eventCallsSucceed env i"
      and ev: "eventSourceGetEvent env N = Inr (Some event)"
      and ty: "GetType event = Inr EventType_OnStateChanged"
    from passive_reaches [OF ok before, of vm] obtain s where
      s: "stateAfter N (passiveBody env vm) \<lparr>iteration = 0, made = []\<rparr> = Some s"
      by blast
    from stateAfter_passiveBody_iteration [OF s] have i: "iteration s = N" by simp
    from passiveBody_poweredOff [of env s event vm] ev ty at i
    have "passiveBody env vm s = Inl \<lparr>result = None, calls = made s, iterations = N\<rparr>"
      by simp
    from forLoop_returns_after [OF s this]
    have "passiveListenerLoop env vm =
        Some (deferred [UnregisterListener, ListenerRelease, EventSourceRelease]
          \<lparr>result = None, calls = made s, iterations = N\<rparr>)"
      by (simp add: passiveListenerLoop_enters [OF acquired])
    then show "\<exists>r. Run True env vm = Some r \<and> result r = None \<and> iterations r = N"
      by (simp add: Run_def)
  qed
  have other: "\<not> (\<exists>ev. eventSourceGetEvent env N = Inr (Some ev) \<and>
            GetType ev = Inr EventType_OnStateChanged) \<longrightarrow>
        (\<forall>r. Run True env vm = Some r \<and> result r = None \<longrightarrow> iterations r \<noteq> N)"
  proof (intro impI allI notI, elim conjE)
    fix r
    assume no: "\<not> (\<exists>ev. eventSourceGetEvent env N = Inr (Some ev) \<and>
            GetType ev = Inr EventType_OnStateChanged)"
      and ret: "Run True env vm = Some r" and nil: "result r = None"
      and n: "iterations r = N"
    from ret have "passiveListenerLoop env vm = Some r" by (simp add: Run_def)
    from passiveListenerLoop_nil [OF this nil] n no show False by auto
  qed
  have notBefore: "\<forall>mode r. Run mode env vm = Some r \<and> result r = None \<longrightarrow> N \<le> iterations r"
  proof (intro allI impI, elim conjE)
    fix mode r
    assume ret: "Run mode env vm = Some r" and nil: "result r = None"
    have "(\<exists>e. machineGetState env (iterations r) = Inl e) \<or>
       machineGetState env (iterations r) = Inr MachineState_PoweredOff"
    proof (cases mode)
      case True
      with ret have "passiveListenerLoop env vm = Some r" by (simp add: Run_def)
      from passiveListenerLoop_nil [OF this nil] show ?thesis by blast
    next
      case False
      with ret have "pollingLoop env vm = Some r" by (simp add: Run_def)
      from pollingLoop_nil [OF this nil] show ?thesis .
    qed
    with before show "N \<le> iterations r"
      by (cases "iterations r < N") auto
  qed
  show ?thesis
    by (rule conjI [OF polling conjI [OF evLoop conjI [OF other notBefore]]])
qed

lemma passiveBody_offWithoutStateChangedScript:
  "\<exists>s'. passiveBody offWithoutStateChangedScript vm s = Inr s'"
proof -
  let ?X = offWithoutStateChangedScript
  have ev: "eventSourceGetEvent ?X (iteration s) = Inr (Some machineStateChangedEvent)"
    by (simp add: offWithoutStateChangedScript_def always_def)
  have ty: "GetType machineStateChangedEvent = Inr EventType_OnMachineStateChanged"
    by simp
  obtain state where st: "machineGetState ?X (iteration s) = Inr state"
    by (cases "iteration s < 1") (simp_all add: offWithoutStateChangedScript_def)
  have di: "dispatchEvent ?X vm (iteration s) machineStateChangedEvent
      EventType_OnMachineStateChanged = Inr []"
    by (rule dispatchEvent_other) simp_all
  have ack: "eventSourceEventProcessed ?X (iteration s) = None"
    by (simp add: offWithoutStateChangedScript_def quietScript_def)
  from passiveBody_acknowledged [OF ev ty st di _ ack] show ?thesis by simp
qed

lemma passiveListenerLoop_offWithoutStateChangedScript:
  "passiveListenerLoop offWithoutStateChangedScript vm = None"
proof -
  have "forLoop (passiveBody offWithoutStateChangedScript vm) \<lparr>iteration = 0, made = []\<rparr> =
      None"
    by (rule forLoop_never [where I = "\<lambda>s. True"])
      (simp_all add: passiveBody_offWithoutStateChangedScript)
  then show ?thesis
    by (simp add: passiveListenerLoop_def offWithoutStateChangedScript_def quietScript_def)
qed

theorem monitor_returns_at_power_off_counterexample:
  "machineGetState offWithoutStateChangedScript 0 = Inr MachineState_Running \<and>
   machineGetState offWithoutStateChangedScript 1 = Inr MachineState_PoweredOff \<and>
   machineGetState offWithoutStateChangedScript 2 = Inr MachineState_PoweredOff \<and>
   eventSourceGetEvent offWithoutStateChangedScript 1 = Inr (Some machineStateChangedEvent) \<and>
   Run True offWithoutStateChangedScript vmABC = None"
  by (simp add: Run_def passiveListenerLoop_offWithoutStateChangedScript)
    (simp add: offWithoutStateChangedScript_def always_def)

theorem monitor_returns_at_power_off_witness:
  "machineGetState offAtTwoScript 0 = Inr MachineState_Running \<and>
   machineGetState offAtTwoScript 1 = Inr MachineState_Running \<and>
   machineGetState offAtTwoScript 2 = Inr MachineState_PoweredOff \<and>
   machineGetStateInitial offAtTwoScript = Inr MachineState_Running \<and>
   enumerateGuestPropertiesInitial offAtTwoScript = Inr [] \<and>
   enumerateGuestProperties offAtTwoScript 0 = Inr [] \<and>
   enumerateGuestProperties offAtTwoScript 1 = Inr [kv] \<and>
   consoleGetEventSource offAtTwoScript = None \<and>
   eventSourceCreateListener offAtTwoScript = None \<and>
   eventSourceRegisterListener offAtTwoScript = None \<and>
   eventCallsSucceed offAtTwoScript 0 \<and>
   eventCallsSucceed offAtTwoScript 1 \<and>
   eventSourceGetEvent offAtTwoScript 2 = Inr (Some stateChangedEvent) \<and>
   GetType stateChangedEvent = Inr EventType_OnStateChanged \<and>
   (\<exists>r. Run False offAtTwoScript vmABC = Some r \<and> result r = None \<and> iterations r = 2) \<and>
   (\<exists>r. Run True offAtTwoScript vmABC = Some r \<and> result r = None \<and> iterations r = 2) \<and>
   machineGetState offWithoutStateChangedScript 0 = Inr MachineState_Running \<and>
   machineGetState offWithoutStateChangedScript 1 = Inr MachineState_PoweredOff \<and>
   \<not> (\<exists>ev. eventSourceGetEvent offWithoutStateChangedScript 1 = Inr (Some ev) \<and>
          GetType ev = Inr EventType_OnStateChanged) \<and>
   \<not> (\<exists>r. Run True offWithoutStateChangedScript vmABC = Some r \<and> result r = None \<and>
          iterations r = 1)"
proof -
  let ?X = offAtTwoScript
  have s0: "machineGetState ?X 0 = Inr MachineState_Running"
    and s1: "machineGetState ?X 1 = Inr MachineState_Running"
    and s2: "machineGetState ?X 2 = Inr MachineState_PoweredOff"
    and si: "machineGetStateInitial ?X = Inr MachineState_Running"
    and ei: "enumerateGuestPropertiesInitial ?X = Inr []"
    and e0: "enumerateGuestProperties ?X 0 = Inr []"
    and e1: "enumerateGuestProperties ?X 1 = Inr [kv]"
    and a1: "consoleGetEventSource ?X = None"
    and a2: "eventSourceCreateListener ?X = None"
    and a3: "eventSourceRegisterListener ?X = None"
    and g2: "eventSourceGetEvent ?X 2 = Inr (Some stateChangedEvent)"
    by (simp_all add: offAtTwoScript_def quietScript_def)
  have c0: "eventCallsSucceed ?X 0"
    by (simp add: eventCallsSucceed_def offAtTwoScript_def)
  have c1: "eventCallsSucceed ?X 1"
    by (simp add: eventCallsSucceed_def offAtTwoScript_def quietScript_def)
  have ty: "GetType stateChangedEvent = Inr EventType_OnStateChanged" by simp
  have lt2: "i = 0 \<or> i = 1" if "i < 2" for i :: nat
    using that by auto
  have before: "\<forall>i<2. \<exists>st. machineGetState ?X i = Inr st \<and> st \<noteq> MachineState_PoweredOff"
    using s0 s1 by (auto dest!: lt2)
  have en: "\<forall>i<2. \<exists>ps. enumerateGuestProperties ?X i = Inr ps"
    using e0 e1 by (auto dest!: lt2)
  have ok: "\<forall>i<2. eventCallsSucceed ?X i"
    using c0 c1 by (auto dest!: lt2)
  note T = monitor_returns_at_power_off
    [OF before s2, where ?state0.0 = MachineState_Running and event = stateChangedEvent
       and vm = vmABC]
  have p: "\<exists>r. Run False ?X vmABC = Some r \<and> result r = None \<and> iterations r = 2"
    using T si ei en by blast
  have q: "\<exists>r. Run True ?X vmABC = Some r \<and> result r = None \<and> iterations r = 2"
    using T a1 a2 a3 ok g2 ty by blast
  let ?Y = offWithoutStateChangedScript
  have t0: "machineGetState ?Y 0 = Inr MachineState_Running"
    and t1: "machineGetState ?Y 1 = Inr MachineState_PoweredOff"
    by (simp_all add: offWithoutStateChangedScript_def)
  have before': "\<forall>i<1. \<exists>st. machineGetState ?Y i = Inr st \<and> st \<noteq> MachineState_PoweredOff"
    using t0 by simp
  have no: "\<not> (\<exists>ev. eventSourceGetEvent ?Y 1 = Inr (Some ev) \<and>
          GetType ev = Inr EventType_OnStateChanged)"
    by (simp add: offWithoutStateChangedScript_def always_def)
  have n: "\<not> (\<exists>r. Run True ?Y vmABC = Some r \<and> result r = None \<and> iterations r = 1)"
    using monitor_returns_at_power_off [OF before' t1, where vm = vmABC] no by blast
  show ?thesis
    using s0 s1 s2 si ei e0 e1 a1 a2 a3 c0 c1 g2 ty p q t0 t1 no n by blast
qed

lemma passiveListenerLoop_returns:
  assumes "consoleGetEventSource env = None"
    and "eventSourceCreateListener env = None"
    and "eventSourceRegisterListener env = None"
    and "stateAfter n (passiveBody env vm) \<lparr>iteration = 0, made = []\<rparr> = Some s"
    and "passiveBody env vm s = Inl r"
  shows "passiveListenerLoop env vm =
     Some (deferred [UnregisterListener, ListenerRelease, EventSourceRelease] r)"
  using forLoop_returns_after [OF assms(4,5)]
  by (simp add: passiveListenerLoop_enters [OF assms(1-3)])

text \<open>
  Claim C5.  In the event-subscription loop a wait that times out (a nil event) is no
  error: the iteration ends without a call and the loop waits again.  An error of the
  acquisition of the event source, of the creation or the registration of the listener,
  of the wait for an event, of the state query or of the acknowledgement ends the loop,
  and \<open>Run\<close> returns that error.
\<close>

theorem event_loop_errors:
  "(eventSourceGetEvent env (iteration s) = Inr None \<longrightarrow>
      passiveBody env vm s = Inr \<lparr>iteration = Suc (iteration s), made = made s\<rparr>) \<and>
   (consoleGetEventSource env = Some e \<longrightarrow>
      (\<exists>r. Run True env vm = Some r \<and> result r = Some e)) \<and>
   (consoleGetEventSource env = None \<and> eventSourceCreateListener env = Some e \<longrightarrow>
      (\<exists>r. Run True env vm = Some r \<and> result r = Some e)) \<and>
   (consoleGetEventSource env = None \<and> eventSourceCreateListener env = None \<and>
    eventSourceRegisterListener env = Some e \<longrightarrow>
      (\<exists>r. Run True env vm = Some r \<and> result r = Some e)) \<and>
   (consoleGetEventSource env = None \<and> eventSourceCreateListener env = None \<and>
    eventSourceRegisterListener env = None \<and>
    stateAfter n (passiveBody env vm) \<lparr>iteration = 0, made = []\<rparr> = Some s \<and>
    (eventSourceGetEvent env (iteration s) = Inl e \<or>
     (\<exists>event eventType.
        eventSourceGetEvent env (iteration s) = Inr (Some event) \<and>
        GetType event = Inr eventType \<and>
        machineGetState env (iteration s) = Inl e) \<or>
     (\<exists>event eventType state dispatched.
        eventSourceGetEvent env (iteration s) = Inr (Some event) \<and>
        GetType event = Inr eventType \<and>
        machineGetState env (iteration s) = Inr state \<and>
        dispatchEvent env vm (iteration s) event eventType = Inr dispatched \<and>
        (eventType \<noteq> EventType_OnStateChanged \<or> state \<noteq> MachineState_PoweredOff) \<and>
        eventSourceEventProcessed env (iteration s) = Some e)) \<longrightarrow>
      (\<exists>r. Run True env vm = Some r \<and> result r = Some e \<and> iterations r = iteration s))"
proof -
  have 1: "eventSourceGetEvent env (iteration s) = Inr None \<longrightarrow>
      passiveBody env vm s = Inr \<lparr>iteration = Suc (iteration s), made = made s\<rparr>"
    by (simp add: passiveBody_timeout)
  have 2: "consoleGetEventSource env = Some e \<longrightarrow>
      (\<exists>r. Run True env vm = Some r \<and> result r = Some e)"
    by (simp add: Run_def passiveListenerLoop_def)
  have 3: "consoleGetEventSource env = None \<and> eventSourceCreateListener env = Some e \<longrightarrow>
      (\<exists>r. Run True env vm = Some r \<and> result r = Some e)"
    by (simp add: Run_def passiveListenerLoop_def)
  have 4: "consoleGetEventSource env = None \<and> eventSourceCreateListener env = None \<and>
    eventSourceRegisterListener env = Some e \<longrightarrow>
      (\<exists>r. Run True env vm = Some r \<and> result r = Some e)"
    by (simp add: Run_def passiveListenerLoop_def)
  have 5: "consoleGetEventSource env = None \<and> eventSourceCreateListener env = None \<and>
    eventSourceRegisterListener env = None \<and>
    stateAfter n (passiveBody env vm) \<lparr>iteration = 0, made = []\<rparr> = Some s \<and>
    (eventSourceGetEvent env (iteration s) = Inl e \<or>
     (\<exists>event eventType.
        eventSourceGetEvent env (iteration s) = Inr (Some event) \<and>
        GetType event = Inr eventType \<and>
        machineGetState env (iteration s) = Inl e) \<or>
     (\<exists>event eventType state dispatched.
        eventSourceGetEvent env (iteration s) = Inr (Some event) \<and>
        GetType event = Inr eventType \<and>
        machineGetState env (iteration s) = Inr state \<and>
        dispatchEvent env vm (iteration s) event eventType = Inr dispatched \<and>
        (eventType \<noteq> EventType_OnStateChanged \<or> state \<noteq> MachineState_PoweredOff) \<and>
        eventSourceEventProcessed env (iteration s) = Some e)) \<longrightarrow>
      (\<exists>r. Run True env vm = Some r \<and> result r = Some e \<and> iterations r = iteration s)"
  proof (intro impI, elim conjE)
    assume acquired: "consoleGetEventSource env = None"
        "eventSourceCreateListener env = None" "eventSourceRegisterListener env = None"
      and reached: "stateAfter n (passiveBody env vm) \<lparr>iteration = 0, made = []\<rparr> = Some s"
      and failure: "eventSourceGetEvent env (iteration s) = Inl e \<or>
        (\<exists>event eventType.
          eventSourceGetEvent env (iteration s) = Inr (Some event) \<and>
          GetType event = Inr eventType \<and>
          machineGetState env (iteration s) = Inl e) \<or>
        (\<exists>event eventType state dispatched.
          eventSourceGetEvent env (iteration s) = Inr (Some event) \<and>
          GetType event = Inr eventType \<and>
          machineGetState env (iteration s) = Inr state \<and>
          dispatchEvent env vm (iteration s) event eventType = Inr dispatched \<and>
          (eventType \<noteq> EventType_OnStateChanged \<or> state \<noteq> MachineState_PoweredOff) \<and>
          eventSourceEventProcessed env (iteration s) = Some e)"
    from failure consider
        (wait) "eventSourceGetEvent env (iteration s) = Inl e"
      | (query) event eventType where
          "eventSourceGetEvent env (iteration s) = Inr (Some event)"
          "GetType event = Inr eventType" "machineGetState env (iteration s) = Inl e"
      | (ack) event eventType state dispatched where
          "eventSourceGetEvent env (iteration s) = Inr (Some event)"
          "GetType event = Inr eventType" "machineGetState env (iteration s) = Inr state"
          "dispatchEvent env vm (iteration s) event eventType = Inr dispatched"
          "eventType \<noteq> EventType_OnStateChanged \<or> state \<noteq> MachineState_PoweredOff"
          "eventSourceEventProcessed env (iteration s) = Some e"
      by blast
    then have "\<exists>r. passiveBody env vm s = Inl r \<and> result r = Some e \<and>
        iterations r = iteration s"
    proof cases
      case wait
      from passiveBody_getEvent_error [OF this, of vm] show ?thesis by simp
    next
      case query
      from passiveBody_getState_error [OF this, of vm] show ?thesis by simp
    next
      case ack
      from passiveBody_ack_error [OF this] show ?thesis by simp
    qed
    then obtain r where r: "passiveBody env vm s = Inl r" "result r = Some e"
      "iterations r = iteration s"
      by blast
    from passiveListenerLoop_returns [OF acquired reached r(1)] r(2,3)
    show "\<exists>r. Run True env vm = Some r \<and> result r = Some e \<and> iterations r = iteration s"
      by (simp add: Run_def)
  qed
  show ?thesis
    by (rule conjI [OF 1 conjI [OF 2 conjI [OF 3 conjI [OF 4 5]]]])
qed

theorem event_loop_errors_witness:
  "eventSourceGetEvent waitFailsScript (iteration passiveStart) = Inr None \<and>
   passiveBody waitFailsScript vmABC passiveStart = Inr \<lparr>iteration = 1, made = []\<rparr> \<and>
   consoleGetEventSource waitFailsScript = None \<and>
   eventSourceCreateListener waitFailsScript = None \<and>
   eventSourceRegisterListener waitFailsScript = None \<and>
   stateAfter 1 (passiveBody waitFailsScript vmABC) passiveStart =
     Some \<lparr>iteration = 1, made = []\<rparr> \<and>
   eventSourceGetEvent waitFailsScript 1 = Inl (Error ''wait failed'') \<and>
   (\<exists>r. Run True waitFailsScript vmABC = Some r \<and>
        result r = Some (Error ''wait failed'') \<and> iterations r = 1) \<and>
   consoleGetEventSource (quietScript\<lparr>consoleGetEventSource := Some (Error ''no source'')\<rparr>) =
     Some (Error ''no source'') \<and>
   (\<exists>r. Run True (quietScript\<lparr>consoleGetEventSource := Some (Error ''no source'')\<rparr>) vmABC =
        Some r \<and> result r = Some (Error ''no source''))"
proof -
  let ?X = waitFailsScript
  let ?s1 = "\<lparr>iteration = 1, made = []\<rparr> :: string loop_state"
  have g0: "eventSourceGetEvent ?X (iteration passiveStart) = Inr None"
    by (simp add: waitFailsScript_def)
  have b0: "passiveBody ?X vmABC passiveStart = Inr ?s1"
    using event_loop_errors [of ?X passiveStart vmABC] g0 by simp
  have a: "consoleGetEventSource ?X = None" "eventSourceCreateListener ?X = None"
    "eventSourceRegisterListener ?X = None"
    by (simp_all add: waitFailsScript_def quietScript_def)
  have st: "stateAfter 1 (passiveBody ?X vmABC) passiveStart = Some ?s1"
    by (simp add: b0)
  have g1: "eventSourceGetEvent ?X 1 = Inl (Error ''wait failed'')"
    by (simp add: waitFailsScript_def)
  then have g1': "eventSourceGetEvent ?X (iteration ?s1) = Inl (Error ''wait failed'')"
    by simp
  have r: "\<exists>r. Run True ?X vmABC = Some r \<and>
        result r = Some (Error ''wait failed'') \<and> iterations r = 1"
    using event_loop_errors
      [where env = ?X and vm = vmABC and s = ?s1 and n = 1 and e = "Error ''wait failed''"]
      a st g1'
    by simp
  let ?Y = "quietScript\<lparr>consoleGetEventSource := Some (Error ''no source'')\<rparr>"
  have n: "consoleGetEventSource ?Y = Some (Error ''no source'')" by simp
  have q: "\<exists>r. Run True ?Y vmABC = Some r \<and> result r = Some (Error ''no source'')"
    using event_loop_errors [where env = ?Y and vm = vmABC and e = "Error ''no source''"] n
    by blast
  show ?thesis
    using g0 b0 a st g1 r n q by blast
qed




section \<open>The order of the teardown\<close>

lemma Release_nil:
  assumes "fst (Release env) = None"
  shows "sessionUnlockMachine env = None \<and> controllerRelease env = None \<and>
     (\<exists>media. machineUnregister env = Inr media) \<and> machineDeleteConfig env = None \<and>
     progressWaitForCompletion env = None \<and> machineRelease env = None"
  using assms by (auto simp: Release_def Let_def split: option.splits sum.splits)

text \<open>
  Claim C8.  \<open>Release\<close> calls, in this order: unlock of the session, a sleep of one
  second, release of the storage controller, unregistration of the machine in
  full-cleanup mode, deletion of the media it returned and the wait for that deletion,
  release of the machine.  The first call that fails is the last of them to be made,
  and its error is returned; \<open>Release\<close> returns nil only when all of them succeed.
  (The progress of the deletion is released on return, once the deletion has started.)
\<close>

theorem release_order:
  "Second = 1000000000 \<and>
   (sessionUnlockMachine env = None \<and> controllerRelease env = None \<and>
    machineUnregister env = Inr media \<and> machineDeleteConfig env = None \<and>
    progressWaitForCompletion env = None \<and> machineRelease env = None \<longrightarrow>
      Release env =
        (None,
         [SessionUnlockMachine, TimeSleep Second, ControllerRelease,
          MachineUnregister CleanupMode_Full, MachineDeleteConfig media,
          ProgressWaitForCompletion (- 1), MachineRelease, ProgressRelease])) \<and>
   (fst (Release env) = None \<longrightarrow>
      sessionUnlockMachine env = None \<and> controllerRelease env = None \<and>
      (\<exists>media. machineUnregister env = Inr media) \<and> machineDeleteConfig env = None \<and>
      progressWaitForCompletion env = None \<and> machineRelease env = None) \<and>
   (sessionUnlockMachine env = Some e \<longrightarrow>
      Release env = (Some e, [SessionUnlockMachine])) \<and>
   (sessionUnlockMachine env = None \<and> controllerRelease env = Some e \<longrightarrow>
      Release env = (Some e, [SessionUnlockMachine, TimeSleep Second, ControllerRelease])) \<and>
   (sessionUnlockMachine env = None \<and> controllerRelease env = None \<and>
    machineUnregister env = Inl e \<longrightarrow>
      Release env =
        (Some e,
         [SessionUnlockMachine, TimeSleep Second, ControllerRelease,
          MachineUnregister CleanupMode_Full])) \<and>
   (sessionUnlockMachine env = None \<and> controllerRelease env = None \<and>
    machineUnregister env = Inr media \<and> machineDeleteConfig env = Some e \<longrightarrow>
      Release env =
        (Some e,
         [SessionUnlockMachine, TimeSleep Second, ControllerRelease,
          MachineUnregister CleanupMode_Full, MachineDeleteConfig media])) \<and>
   (sessionUnlockMachine env = None \<and> controllerRelease env = None \<and>
    machineUnregister env = Inr media \<and> machineDeleteConfig env = None \<and>
    progressWaitForCompletion env = Some e \<longrightarrow>
      Release env =
        (Some e,
         [SessionUnlockMachine, TimeSleep Second, ControllerRelease,
          MachineUnregister CleanupMode_Full, MachineDeleteConfig media,
          ProgressWaitForCompletion (- 1), ProgressRelease])) \<and>
   (sessionUnlockMachine env = None \<and> controllerRelease env = None \<and>
    machineUnregister env = Inr media \<and> machineDeleteConfig env = None \<and>
    progressWaitForCompletion env = None \<and> machineRelease env = Some e \<longrightarrow>
      Release env =
        (Some e,
         [SessionUnlockMachine, TimeSleep Second, ControllerRelease,
          MachineUnregister CleanupMode_Full, MachineDeleteConfig media,
          ProgressWaitForCompletion (- 1), MachineRelease, ProgressRelease])) \<and>
   (\<exists>n m. filter (\<lambda>c. c \<noteq> ProgressRelease) (snd (Release env)) =
      take n (teardownOrder m))"
proof -
  have s: "Second = 1000000000"
    by (simp add: Second_def Millisecond_def)
  have ok: "sessionUnlockMachine env = None \<and> controllerRelease env = None \<and>
    machineUnregister env = Inr media \<and> machineDeleteConfig env = None \<and>
    progressWaitForCompletion env = None \<and> machineRelease env = None \<longrightarrow>
      Release env =
        (None,
         [SessionUnlockMachine, TimeSleep Second, ControllerRelease,
          MachineUnregister CleanupMode_Full, MachineDeleteConfig media,
          ProgressWaitForCompletion (- 1), MachineRelease, ProgressRelease])"
    by (simp add: Release_def)
  have nil: "fst (Release env) = None \<longrightarrow>
      sessionUnlockMachine env = None \<and> controllerRelease env = None \<and>
      (\<exists>media. machineUnregister env = Inr media) \<and> machineDeleteConfig env = None \<and>
      progressWaitForCompletion env = None \<and> machineRelease env = None"
    using Release_nil [of env] by blast
  have f1: "sessionUnlockMachine env = Some e \<longrightarrow>
      Release env = (Some e, [SessionUnlockMachine])"
    by (simp add: Release_def)
  have f2: "sessionUnlockMachine env = None \<and> controllerRelease env = Some e \<longrightarrow>
      Release env = (Some e, [SessionUnlockMachine, TimeSleep Second, ControllerRelease])"
    by (simp add: Release_def)
  have f3: "sessionUnlockMachine env = None \<and> controllerRelease env = None \<and>
    machineUnregister env = Inl e \<longrightarrow>
      Release env =
        (Some e,
         [SessionUnlockMachine, TimeSleep Second, ControllerRelease,
          MachineUnregister CleanupMode_Full])"
    by (simp add: Release_def)
  have f4: "sessionUnlockMachine env = None \<and> controllerRelease env = None \<and>
    machineUnregister env = Inr media \<and> machineDeleteConfig env = Some e \<longrightarrow>
      Release env =
        (Some e,
         [SessionUnlockMachine, TimeSleep Second, ControllerRelease,
          MachineUnregister CleanupMode_Full, MachineDeleteConfig media])"
    by (simp add: Release_def)
  have f5: "sessionUnlockMachine env = None \<and> controllerRelease env = None \<and>
    machineUnregister env = Inr media \<and> machineDeleteConfig env = None \<and>
    progressWaitForCompletion env = Some e \<longrightarrow>
      Release env =
        (Some e,
         [SessionUnlockMachine, TimeSleep Second, ControllerRelease,
          MachineUnregister CleanupMode_Full, MachineDeleteConfig media,
          ProgressWaitForCompletion (- 1), ProgressRelease])"
    by (simp add: Release_def)
  have f6: "sessionUnlockMachine env = None \<and> controllerRelease env = None \<and>
    machineUnregister env = Inr media \<and> machineDeleteConfig env = None \<and>
    progressWaitForCompletion env = None \<and> machineRelease env = Some e \<longrightarrow>
      Release env =
        (Some e,
         [SessionUnlockMachine, TimeSleep Second, ControllerRelease,
          MachineUnregister CleanupMode_Full, MachineDeleteConfig media,
          ProgressWaitForCompletion (- 1), MachineRelease, ProgressRelease])"
    by (simp add: Release_def)
  have pre: "\<exists>n m. filter (\<lambda>c. c \<noteq> ProgressRelease) (snd (Release env)) =
      take n (teardownOrder m)"
  proof (cases "sessionUnlockMachine env")
    case (Some e1)
    then have "filter (\<lambda>c. c \<noteq> ProgressRelease) (snd (Release env)) =
        take 1 (teardownOrder [])"
      by (simp add: Release_def teardownOrder_def)
    then show ?thesis by blast
  next
    case u: None
    show ?thesis
    proof (cases "controllerRelease env")
      case (Some e2)
      with u have "filter (\<lambda>c. c \<noteq> ProgressRelease) (snd (Release env)) =
          take 3 (teardownOrder [])"
        by (simp add: Release_def teardownOrder_def eval_nat_numeral)
      then show ?thesis by blast
    next
      case c: None
      show ?thesis
      proof (cases "machineUnregister env")
        case (Inl e3)
        with u c have "filter (\<lambda>c. c \<noteq> ProgressRelease) (snd (Release env)) =
            take 4 (teardownOrder [])"
          by (simp add: Release_def teardownOrder_def eval_nat_numeral)
        then show ?thesis by blast
      next
        case r: (Inr m)
        show ?thesis
        proof (cases "machineDeleteConfig env")
          case (Some e4)
          with u c r have "filter (\<lambda>c. c \<noteq> ProgressRelease) (snd (Release env)) =
              take 5 (teardownOrder m)"
            by (simp add: Release_def teardownOrder_def eval_nat_numeral)
          then show ?thesis by blast
        next
          case d: None
          show ?thesis
          proof (cases "progressWaitForCompletion env")
            case (Some e5)
            with u c r d have "filter (\<lambda>c. c \<noteq> ProgressRelease) (snd (Release env)) =
                take 6 (teardownOrder m)"
              by (simp add: Release_def teardownOrder_def eval_nat_numeral)
            then show ?thesis by blast
          next
            case w: None
            have "filter (\<lambda>c. c \<noteq> ProgressRelease) (snd (Release env)) =
                take 7 (teardownOrder m)"
              using u c r d w
              by (cases "machineRelease env")
                (simp_all add: Release_def teardownOrder_def eval_nat_numeral)
            then show ?thesis by blast
          qed
        qed
      qed
    qed
  qed
  show ?thesis
    by (rule conjI [OF s conjI [OF ok conjI [OF nil conjI [OF f1 conjI [OF f2
          conjI [OF f3 conjI [OF f4 conjI [OF f5 conjI [OF f6 pre]]]]]]]]])
qed

theorem release_order_witness:
  "sessionUnlockMachine teardownSucceeds = None \<and>
   controllerRelease teardownSucceeds = None \<and>
   machineUnregister teardownSucceeds = Inr [7, 8] \<and>
   machineDeleteConfig teardownSucceeds = None \<and>
   progressWaitForCompletion teardownSucceeds = None \<and>
   machineRelease teardownSucceeds = None \<and>
   Release teardownSucceeds =
     (None,
      [SessionUnlockMachine, TimeSleep 1000000000, ControllerRelease,
       MachineUnregister CleanupMode_Full, MachineDeleteConfig [7, 8],
       ProgressWaitForCompletion (- 1), MachineRelease, ProgressRelease]) \<and>
   fst (Release teardownSucceeds) = None \<and>
   controllerRelease (teardownSucceeds\<lparr>controllerRelease := Some (Error ''locked'')\<rparr>) =
     Some (Error ''locked'') \<and>
   Release (teardownSucceeds\<lparr>controllerRelease := Some (Error ''locked'')\<rparr>) =
     (Some (Error ''locked''),
      [SessionUnlockMachine, TimeSleep 1000000000, ControllerRelease]) \<and>
   progressWaitForCompletion
     (teardownSucceeds\<lparr>progressWaitForCompletion := Some (Error ''timeout'')\<rparr>) =
     Some (Error ''timeout'') \<and>
   Release (teardownSucceeds\<lparr>progressWaitForCompletion := Some (Error ''timeout'')\<rparr>) =
     (Some (Error ''timeout''),
      [SessionUnlockMachine, TimeSleep 1000000000, ControllerRelease,
       MachineUnregister CleanupMode_Full, MachineDeleteConfig [7, 8],
       ProgressWaitForCompletion (- 1), ProgressRelease])"
proof -
  let ?c = "teardownSucceeds\<lparr>controllerRelease := Some (Error ''locked'')\<rparr>"
  let ?w = "teardownSucceeds\<lparr>progressWaitForCompletion := Some (Error ''timeout'')\<rparr>"
  have a: "sessionUnlockMachine teardownSucceeds = None"
    "controllerRelease teardownSucceeds = None"
    "machineUnregister teardownSucceeds = Inr [7, 8]"
    "machineDeleteConfig teardownSucceeds = None"
    "progressWaitForCompletion teardownSucceeds = None"
    "machineRelease teardownSucceeds = None"
    by (simp_all add: teardownSucceeds_def)
  note T = release_order [of teardownSucceeds "[7, 8]"]
  have sec: "Second = 1000000000" using T by blast
  have r: "Release teardownSucceeds =
     (None,
      [SessionUnlockMachine, TimeSleep 1000000000, ControllerRelease,
       MachineUnregister CleanupMode_Full, MachineDeleteConfig [7, 8],
       ProgressWaitForCompletion (- 1), MachineRelease, ProgressRelease])"
    using T a by (simp add: sec)
  then have n: "fst (Release teardownSucceeds) = None" by simp
  have c: "controllerRelease ?c = Some (Error ''locked'')" by simp
  have rc: "Release ?c =
     (Some (Error ''locked''),
      [SessionUnlockMachine, TimeSleep 1000000000, ControllerRelease])"
    using release_order [of ?c _ "Error ''locked''"] a by (simp add: sec)
  have w: "progressWaitForCompletion ?w = Some (Error ''timeout'')" by simp
  have rw: "Release ?w =
     (Some (Error ''timeout''),
      [SessionUnlockMachine, TimeSleep 1000000000, ControllerRelease,
       MachineUnregister CleanupMode_Full, MachineDeleteConfig [7, 8],
       ProgressWaitForCompletion (- 1), ProgressRelease])"
    using release_order [of ?w "[7, 8]" "Error ''timeout''"] a by (simp add: sec)
  show ?thesis
    using a r n c rc w rw by simp
qed

end
